theory Spec2Isabelle
  imports Complex_Main "HOL-Library.Sublist" "HOL-Library.Log_Nat"
begin

section \<open>JavaScript numbers\<close>

text \<open>
  A JavaScript number is an IEEE 754 double. The integers that the code handles (lengths,
  token counts, budgets) are doubles themselves and are modelled as \<^typ>\<open>int\<close>, and as
  \<^typ>\<open>nat\<close> where the number counts items or messages; their sums and differences are
  exact, and so are a quarter and a half of them. A decimal literal such as \<^verbatim>\<open>0.7\<close>,
  and a product or quotient that is not an integer, is rounded to the nearest double, a
  tie going to the even significand. Wherever the code compares such a number or rounds
  it down, it is computed here as the code computes it. \<open>to_double\<close> is the rounding, on
  the rationals: a positive \<open>x\<close> with \<open>2\<^sup>e \<le> x < 2\<^sup>e\<^sup>+\<^sup>1\<close> is rounded to a multiple of
  \<open>2\<^sup>e\<^sup>-\<^sup>5\<^sup>2\<close>. It covers the normal range of the doubles, which products and quotients
  of integers below \<open>2\<^sup>5\<^sup>3\<close> with the constants of the code do not leave.
\<close>

definition pow2 :: "int \<Rightarrow> rat" where
  "pow2 e = (if 0 \<le> e then 2 ^ nat e else 1 / 2 ^ nat (- e))"

definition round_half_even :: "rat \<Rightarrow> int" where
  "round_half_even x =
     (let f = \<lfloor>x\<rfloor>; d = x - of_int f
      in if d < 1 / 2 then f
         else if 1 / 2 < d then f + 1
         else if even f then f else f + 1)"

text \<open>The exponent \<open>e\<close> with \<open>2\<^sup>e \<le> x < 2\<^sup>e\<^sup>+\<^sup>1\<close>, for a positive \<open>x\<close>.\<close>

definition binary_exponent :: "rat \<Rightarrow> int" where
  "binary_exponent x =
     (let (p, q) = quotient_of x; d = bitlen p - bitlen q
      in if pow2 d \<le> x then d else d - 1)"

definition to_double :: "rat \<Rightarrow> rat" where
  "to_double x =
     (if x = 0 then 0
      else
        (let a = \<bar>x\<bar>;
             ulp = pow2 (binary_exponent a - 52);
             m = of_int (round_half_even (a / ulp)) * ulp
         in if 0 < x then m else - m))"

text \<open>
  \<^verbatim>\<open>a * b\<close> and \<^verbatim>\<open>a / b\<close> (for a divisor that is not zero) on doubles: the exact
  result, rounded.
\<close>

definition js_times :: "rat \<Rightarrow> rat \<Rightarrow> rat" where
  "js_times a b = to_double (a * b)"

definition js_over :: "rat \<Rightarrow> rat \<Rightarrow> rat" where
  "js_over a b = to_double (a / b)"

section \<open>Token budget (src/context/tokens.ts)\<close>

text \<open>
  JavaScript strings are sequences of UTF-16 code units and \<open>length\<close> counts code units.
  A \<^typ>\<open>string\<close> models such a sequence, one \<^typ>\<open>char\<close> per code unit, for texts
  whose code units are below 256.
\<close>

definition CHARS_PER_TOKEN :: int where
  "CHARS_PER_TOKEN = 4"

text \<open>
  \<^verbatim>\<open>if (!text) return 0; return Math.ceil(text.length / CHARS_PER_TOKEN);\<close>
\<close>

definition estimateTokens :: "string \<Rightarrow> int" where
  "estimateTokens text =
     (if text = [] then 0
      else \<lceil>real (length text) / real_of_int CHARS_PER_TOKEN\<rceil>)"

record TokenConfig =
  maxTokens :: int
  reserveTokens :: int
  chunkSize :: int

definition ollama_limits :: TokenConfig where
  "ollama_limits = \<lparr>maxTokens = 8000, reserveTokens = 1000, chunkSize = 2000\<rparr>"

definition ADAPTER_LIMITS :: "string \<rightharpoonup> TokenConfig" where
  "ADAPTER_LIMITS =
     [''claude'' \<mapsto> \<lparr>maxTokens = 100000, reserveTokens = 4000, chunkSize = 8000\<rparr>,
      ''gemini'' \<mapsto> \<lparr>maxTokens = 128000, reserveTokens = 4000, chunkSize = 8000\<rparr>,
      ''codex'' \<mapsto> \<lparr>maxTokens = 32000, reserveTokens = 2000, chunkSize = 4000\<rparr>,
      ''ollama'' \<mapsto> ollama_limits]"

text \<open>
  \<open>ADAPTER_LIMITS\<close> is a plain object, so \<^verbatim>\<open>ADAPTER_LIMITS[agent]\<close> also finds the
  properties that every object inherits from \<^verbatim>\<open>Object.prototype\<close>. Their values are
  functions (an object for \<^verbatim>\<open>__proto__\<close>): truthy, and without the three fields of a
  \<open>TokenConfig\<close>.
\<close>

definition inherited_keys :: "string list" where
  "inherited_keys =
     [''constructor'', ''hasOwnProperty'', ''isPrototypeOf'', ''propertyIsEnumerable'',
      ''toLocaleString'', ''toString'', ''valueOf'', ''__proto__'', ''__defineGetter__'',
      ''__defineSetter__'', ''__lookupGetter__'', ''__lookupSetter__'']"

datatype table_entry = Config TokenConfig | Inherited

text \<open>
  \<^verbatim>\<open>ADAPTER_LIMITS[agent] || ADAPTER_LIMITS.ollama\<close>: one of the table's four entries, an
  inherited property, or else (the lookup is \<^verbatim>\<open>undefined\<close>) the \<open>ollama\<close> entry.
\<close>

definition getTokenConfig :: "string \<Rightarrow> table_entry" where
  "getTokenConfig agent =
     (case ADAPTER_LIMITS agent of
        Some config \<Rightarrow> Config config
      | None \<Rightarrow> if agent \<in> set inherited_keys then Inherited else Config ollama_limits)"

text \<open>
  \<^verbatim>\<open>config.maxTokens - config.reserveTokens - usedTokens\<close>. On an inherited property the
  fields are \<^verbatim>\<open>undefined\<close> and the difference is \<^verbatim>\<open>NaN\<close>, here \<open>None\<close>.
\<close>

definition getAvailableTokens :: "string \<Rightarrow> int \<Rightarrow> int option" where
  "getAvailableTokens agent usedTokens =
     (case getTokenConfig agent of
        Config config \<Rightarrow> Some (maxTokens config - reserveTokens config - usedTokens)
      | Inherited \<Rightarrow> None)"

subsection \<open>JavaScript string primitives\<close>

text \<open>
  \<^verbatim>\<open>s.slice(start, end)\<close>: a negative index counts from the end of the string, and both
  indices are clamped to the string.
\<close>

definition js_index :: "nat \<Rightarrow> int \<Rightarrow> nat" where
  "js_index len i = (if i < 0 then nat (max (int len + i) 0) else min (nat i) len)"

definition js_slice :: "string \<Rightarrow> int \<Rightarrow> int \<Rightarrow> string" where
  "js_slice s start fin =
     (let from = js_index (length s) start; to = js_index (length s) fin
      in take (to - from) (drop from s))"

definition js_slice_from :: "string \<Rightarrow> int \<Rightarrow> string" where
  "js_slice_from s start = drop (js_index (length s) start) s"

definition matches_at :: "string \<Rightarrow> string \<Rightarrow> nat \<Rightarrow> bool" where
  "matches_at s pat k = prefix pat (drop k s)"

text \<open>
  \<^verbatim>\<open>s.lastIndexOf(pat, pos)\<close> scans downwards from \<open>min(max(pos, 0), s.length)\<close> and
  returns the first index at which \<open>pat\<close> occurs, or \<open>-1\<close>. The patterns used here are
  never empty.
\<close>

fun lastIndexOf_upto :: "string \<Rightarrow> string \<Rightarrow> nat \<Rightarrow> int" where
  "lastIndexOf_upto s pat 0 = (if matches_at s pat 0 then 0 else - 1)"
| "lastIndexOf_upto s pat (Suc k) =
     (if matches_at s pat (Suc k) then int (Suc k) else lastIndexOf_upto s pat k)"

definition lastIndexOf_from :: "string \<Rightarrow> string \<Rightarrow> int \<Rightarrow> int" where
  "lastIndexOf_from s pat pos = lastIndexOf_upto s pat (nat (min (max pos 0) (int (length s))))"

definition lastIndexOf :: "string \<Rightarrow> string \<Rightarrow> int" where
  "lastIndexOf s pat = lastIndexOf_upto s pat (length s)"

text \<open>
  \<^verbatim>\<open>s.trim()\<close> removes white space and line terminators from both ends. Of the code
  units below 256 these are TAB, LF, VT, FF, CR, SPACE and NBSP.
\<close>

definition is_js_space :: "char \<Rightarrow> bool" where
  "is_js_space c = (of_char c \<in> {9, 10, 11, 12, 13, 32, 160 :: nat})"

definition trim :: "string \<Rightarrow> string" where
  "trim s = rev (dropWhile is_js_space (rev (dropWhile is_js_space s)))"

subsection \<open>Truncation and chunking\<close>

definition truncation_marker :: string where
  "truncation_marker = ''\<newline>\<newline>[...truncated]''"

text \<open>
  \<open>truncateForAgent\<close>, with the default \<open>usedTokens = 0\<close> passed explicitly. The two
  thresholds \<^verbatim>\<open>maxChars * 0.7\<close> and \<^verbatim>\<open>maxChars * 0.8\<close> are products of doubles.
  When the available count is \<^verbatim>\<open>NaN\<close>, so is \<open>maxChars\<close>: every comparison with it is
  false, \<^verbatim>\<open>text.slice(0, NaN)\<close> is the empty string, in which \<open>lastIndexOf\<close> finds
  nothing, and the result is the marker alone.
\<close>

definition truncateForAgent :: "string \<Rightarrow> string \<Rightarrow> int \<Rightarrow> string" where
  "truncateForAgent text agent usedTokens =
     (case getAvailableTokens agent usedTokens of
        None \<Rightarrow> truncation_marker
      | Some available \<Rightarrow>
          (let maxChars = available * CHARS_PER_TOKEN
           in if int (length text) \<le> maxChars then text
              else
                (let truncated = js_slice text 0 maxChars;
                     lastParagraph = lastIndexOf truncated ''\<newline>\<newline>''
                 in (if of_int lastParagraph > js_times (of_int maxChars) (to_double (7 / 10))
                     then js_slice truncated 0 lastParagraph
                     else
                       (let lastSentence = lastIndexOf truncated ''. ''
                        in if of_int lastSentence
                                > js_times (of_int maxChars) (to_double (8 / 10))
                           then js_slice truncated 0 (lastSentence + 1)
                           else truncated))
                    @ truncation_marker)))"

text \<open>
  The \<^verbatim>\<open>while (remaining.length > 0)\<close> loop of \<open>splitIntoChunks\<close>. A run that never
  leaves the loop has the value \<open>None\<close>. The threshold \<^verbatim>\<open>chunkChars * 0.5\<close> is exact:
  halving a double does not round.
\<close>

definition breakPoint_of :: "int \<Rightarrow> string \<Rightarrow> int" where
  "breakPoint_of chunkChars remaining =
     (let paragraphBreak = lastIndexOf_from remaining ''\<newline>\<newline>'' chunkChars
      in if real_of_int paragraphBreak > real_of_int chunkChars * 0.5
         then paragraphBreak + 2
         else
           (let sentenceBreak = lastIndexOf_from remaining ''. '' chunkChars
            in if real_of_int sentenceBreak > real_of_int chunkChars * 0.5
               then sentenceBreak + 2
               else chunkChars))"

partial_function (option) chunk_loop :: "int \<Rightarrow> string \<Rightarrow> string list \<Rightarrow> string list option"
where
  "chunk_loop chunkChars remaining chunks =
     (if length remaining > 0 then
        (if int (length remaining) \<le> chunkChars then Some (chunks @ [remaining])
         else
           chunk_loop chunkChars
             (trim (js_slice_from remaining (breakPoint_of chunkChars remaining)))
             (chunks @ [trim (js_slice remaining 0 (breakPoint_of chunkChars remaining))]))
      else Some chunks)"

text \<open>
  The same loop when \<open>chunkChars\<close> is \<^verbatim>\<open>NaN\<close>: no comparison with it succeeds, so the
  break point stays \<^verbatim>\<open>NaN\<close>; \<^verbatim>\<open>remaining.slice(0, NaN)\<close> is the empty string and
  \<^verbatim>\<open>remaining.slice(NaN)\<close> is all of \<open>remaining\<close>.
\<close>

partial_function (option) chunk_loop_NaN :: "string \<Rightarrow> string list \<Rightarrow> string list option"
where
  "chunk_loop_NaN remaining chunks =
     (if length remaining > 0 then chunk_loop_NaN (trim remaining) (chunks @ [trim []])
      else Some chunks)"

definition splitIntoChunks :: "string \<Rightarrow> string \<Rightarrow> string list option" where
  "splitIntoChunks text agent =
     (case getTokenConfig agent of
        Config config \<Rightarrow>
          (let chunkChars = chunkSize config * CHARS_PER_TOKEN
           in if int (length text) \<le> chunkChars then Some [text]
              else chunk_loop chunkChars text [])
      | Inherited \<Rightarrow> chunk_loop_NaN text [])"

section \<open>Summarization (context/summarizer.ts, in the sources src/unnamed/part_002)\<close>

subsection \<open>More string primitives\<close>

text \<open>\<^verbatim>\<open>s.indexOf(pat)\<close>, with \<open>None\<close> for \<open>-1\<close>.\<close>

fun indexOf :: "string \<Rightarrow> string \<Rightarrow> nat option" where
  "indexOf [] pat = (if pat = [] then Some 0 else None)"
| "indexOf (c # cs) pat =
     (if prefix pat (c # cs) then Some 0 else map_option Suc (indexOf cs pat))"

text \<open>
  The replacement text of \<^verbatim>\<open>s.replace(pattern, replacement)\<close> for a string pattern:
  \<^verbatim>\<open>$$\<close> stands for a dollar sign, \<^verbatim>\<open>$&\<close> for the matched text, \<^verbatim>\<open>$`\<close> for the text
  before the match and \<^verbatim>\<open>$'\<close> for the text after it. A string pattern has no capture
  groups, so any other \<^verbatim>\<open>$\<close> stays as it is.
\<close>

fun get_substitution :: "string \<Rightarrow> string \<Rightarrow> string \<Rightarrow> string \<Rightarrow> string" where
  "get_substitution matched pre post [] = []"
| "get_substitution matched pre post [c] = [c]"
| "get_substitution matched pre post (c # d # ds) =
     (if c = CHR ''$'' \<and> d = CHR ''$'' then CHR ''$'' # get_substitution matched pre post ds
      else if c = CHR ''$'' \<and> d = CHR ''&'' then matched @ get_substitution matched pre post ds
      else if c = CHR ''$'' \<and> d = CHR 0x60 then pre @ get_substitution matched pre post ds
      else if c = CHR ''$'' \<and> d = CHR 0x27 then post @ get_substitution matched pre post ds
      else c # get_substitution matched pre post (d # ds))"

text \<open>\<^verbatim>\<open>s.replace(pat, replacement)\<close> with a string pattern replaces the first occurrence.\<close>

definition js_replace :: "string \<Rightarrow> string \<Rightarrow> string \<Rightarrow> string" where
  "js_replace s pat replacement =
     (case indexOf s pat of
        None \<Rightarrow> s
      | Some p \<Rightarrow>
          take p s
          @ get_substitution pat (take p s) (drop (p + length pat) s) replacement
          @ drop (p + length pat) s)"

fun js_join :: "string \<Rightarrow> string list \<Rightarrow> string" where
  "js_join sep [] = []"
| "js_join sep [x] = x"
| "js_join sep (x # y # ys) = x @ sep @ js_join sep (y # ys)"

text \<open>Decimal numerals, as string concatenation with a number produces them.\<close>

definition digit_char :: "nat \<Rightarrow> char" where
  "digit_char d = ''0123456789'' ! d"

fun string_of_nat :: "nat \<Rightarrow> string" where
  "string_of_nat n =
     (if n < 10 then [digit_char n] else string_of_nat (n div 10) @ [digit_char (n mod 10)])"

declare string_of_nat.simps [simp del]

definition string_of_int :: "int \<Rightarrow> string" where
  "string_of_int i =
     (if i < 0 then CHR ''-'' # string_of_nat (nat (- i)) else string_of_nat (nat i))"

subsection \<open>Code blocks\<close>

definition fence :: string where
  "fence = [CHR 0x60, CHR 0x60, CHR 0x60]"

definition placeholder :: "nat \<Rightarrow> string" where
  "placeholder i = ''[CODE_BLOCK_'' @ string_of_nat i @ '']''"

text \<open>
  \<open>extractCodeBlocks\<close> replaces every match of the regular expression
  \<^verbatim>\<open>/```[\s\S]*?```/g\<close>: the leftmost opening fence that has a closing fence after it,
  up to the nearest such closing fence, and on from there. The callback pushes the match
  and returns the placeholder that carries its index. \<open>extract_from n\<close> is the scan when
  \<open>n\<close> blocks have been pushed already.
\<close>

function extract_from :: "nat \<Rightarrow> string \<Rightarrow> string list \<times> string" where
  "extract_from n s =
     (case indexOf s fence of
        None \<Rightarrow> ([], s)
      | Some p \<Rightarrow>
          (case indexOf (drop (p + 3) s) fence of
             None \<Rightarrow> ([], s)
           | Some q \<Rightarrow>
               (let (code, rest) = extract_from (Suc n) (drop (p + q + 6) s)
                in (take (q + 6) (drop p s) # code, take p s @ placeholder n @ rest))))"
  by pat_completeness auto
termination
proof (relation "measure (\<lambda>(n, s). length s)")
  show "wf (measure (\<lambda>(n, s). length s))" by simp
next
  fix n :: nat and s :: string and p q
  assume found: "indexOf s fence = Some p" "indexOf (drop (p + 3) s) fence = Some q"
  have "indexOf t pat = Some k \<Longrightarrow> k + length pat \<le> length t" for t pat k
  proof (induction t arbitrary: k)
    case Nil
    then show ?case by (simp split: if_splits)
  next
    case (Cons c cs)
    then show ?case by (auto dest: prefix_length_le split: if_splits)
  qed
  from this [OF found(1)] have "p + 3 \<le> length s"
    by (simp add: fence_def)
  then show "((Suc n, drop (p + q + 6) s), (n, s)) \<in> measure (\<lambda>(n, s). length s)"
    by simp
qed

declare extract_from.simps [simp del]

definition extractCodeBlocks :: "string \<Rightarrow> string list \<times> string" where
  "extractCodeBlocks text = extract_from 0 text"

text \<open>
  \<open>restoreCodeBlocks\<close>:
  \<^verbatim>\<open>code.forEach((block, i) => { result = result.replace('[CODE_BLOCK_' + i + ']', block) })\<close>.
\<close>

definition restoreCodeBlocks :: "string \<Rightarrow> string list \<Rightarrow> string" where
  "restoreCodeBlocks summary_text code =
     foldl (\<lambda>result (i, block). js_replace result (placeholder i) block)
       summary_text (enumerate 0 code)"

subsection \<open>The summarization service and \<open>summarize\<close>\<close>

text \<open>
  The local Ollama service is outside the program. A call of \<^verbatim>\<open>ollama.generate\<close> with a
  prompt either yields the response text or fails; the model takes the service as a
  function from the prompt to one of the two.
\<close>

datatype service_error = Unavailable | ServiceFailure | Timeout

type_synonym ollama_service = "string \<Rightarrow> service_error + string"

datatype summary_format = Bullet | Paragraph | Structured

record SummaryOptions =
  maxLength :: "int option"
  preserveCode :: "bool option"
  format :: "summary_format option"

text \<open>
  The quotient of two integers held in JavaScript numbers: a zero divisor gives an
  infinity or \<open>NaN\<close>. A finite quotient, which the code only reports, is kept exact.
\<close>

datatype js_number = Finite real | PosInfinity | NegInfinity | NaN

definition js_divide :: "int \<Rightarrow> int \<Rightarrow> js_number" where
  "js_divide a b =
     (if b = 0 then (if a = 0 then NaN else if 0 < a then PosInfinity else NegInfinity)
      else Finite (real_of_int a / real_of_int b))"

record SummaryResult =
  summary :: string
  originalTokens :: int
  summaryTokens :: int
  compressionRatio :: js_number

definition DEFAULT_MAX_LENGTH :: int where
  "DEFAULT_MAX_LENGTH = 500"

definition SUMMARIZE_PROMPT :: string where
  "SUMMARIZE_PROMPT = js_join ''\<newline>''
     [''Summarize this content concisely. Preserve:'',
      ''- Key decisions and conclusions'',
      ''- Code snippets (if relevant)'',
      ''- Action items'',
      ''- Error messages'',
      [],
      ''Keep it under {{maxLength}} words.'',
      [],
      ''Content:'',
      ''{{content}}'']"

definition failure_tag :: string where
  "failure_tag = ''\<newline>\<newline>[...summarization failed, truncated]''"

text \<open>\<^verbatim>\<open>options.maxLength || DEFAULT_MAX_LENGTH\<close>: an absent or zero option gives the default.\<close>

definition effective_maxLength :: "SummaryOptions \<Rightarrow> int" where
  "effective_maxLength options =
     (case maxLength options of
        None \<Rightarrow> DEFAULT_MAX_LENGTH
      | Some m \<Rightarrow> if m = 0 then DEFAULT_MAX_LENGTH else m)"

text \<open>\<^verbatim>\<open>options.preserveCode ?? true\<close>\<close>

definition effective_preserveCode :: "SummaryOptions \<Rightarrow> bool" where
  "effective_preserveCode options = (case preserveCode options of None \<Rightarrow> True | Some b \<Rightarrow> b)"

definition summarize_prompt :: "int \<Rightarrow> string \<Rightarrow> string" where
  "summarize_prompt maxLen textToSummarize =
     js_replace (js_replace SUMMARIZE_PROMPT ''{{maxLength}}'' (string_of_int maxLen))
       ''{{content}}'' textToSummarize"

text \<open>
  \<open>summarize\<close>. The \<^verbatim>\<open>try\<close> block holds the service call and everything after it, and
  the \<^verbatim>\<open>catch\<close> block returns the truncation result, so the function has a result in
  every case.
\<close>

definition summarize :: "ollama_service \<Rightarrow> string \<Rightarrow> SummaryOptions \<Rightarrow> SummaryResult" where
  "summarize ollama text options =
     (let maxLen = effective_maxLength options;
          preserve = effective_preserveCode options;
          original = estimateTokens text
      in if original \<le> maxLen
         then \<lparr>summary = text, originalTokens = original, summaryTokens = original,
               compressionRatio = Finite 1\<rparr>
         else
           (let (codeBlocks, textToSummarize) =
                  (if preserve then extractCodeBlocks text else ([], text))
            in case ollama (summarize_prompt maxLen textToSummarize) of
                 Inr response \<Rightarrow>
                   (let trimmed = trim response;
                        restored = (if preserve \<and> length codeBlocks > 0
                                    then restoreCodeBlocks trimmed codeBlocks else trimmed)
                    in \<lparr>summary = restored, originalTokens = original,
                         summaryTokens = estimateTokens restored,
                         compressionRatio = js_divide original (estimateTokens restored)\<rparr>)
               | Inl error \<Rightarrow>
                   (let truncated = js_slice text 0 (maxLen * 4) @ failure_tag
                    in \<lparr>summary = truncated, originalTokens = original,
                         summaryTokens = estimateTokens truncated,
                         compressionRatio = Finite 1\<rparr>)))"

text \<open>\<open>summarizeIfNeeded\<close>, with \<^verbatim>\<open>Math.floor(tokenLimit * 0.8)\<close> as the new \<open>maxLength\<close>.\<close>

definition summarizeIfNeeded :: "ollama_service \<Rightarrow> string \<Rightarrow> int \<Rightarrow> SummaryOptions \<Rightarrow> string" where
  "summarizeIfNeeded ollama text tokenLimit options =
     (if estimateTokens text \<le> tokenLimit then text
      else summary (summarize ollama text
             (options\<lparr>maxLength :=
                        Some \<lfloor>js_times (of_int tokenLimit) (to_double (8 / 10))\<rfloor>\<rparr>)))"

text \<open>
  Two services for concrete runs: one answers every prompt with the same text, the other
  fails on every prompt.
\<close>

definition fixed_response :: "string \<Rightarrow> ollama_service" where
  "fixed_response r prompt = Inr r"

definition failing_service :: "service_error \<Rightarrow> ollama_service" where
  "failing_service e prompt = Inl e"

section \<open>Sessions (src/memory/sessions.ts)\<close>

datatype role = User | Assistant | System

fun role_string :: "role \<Rightarrow> string" where
  "role_string User = ''user''"
| "role_string Assistant = ''assistant''"
| "role_string System = ''system''"

record Message =
  role :: role
  content :: string
  tokens :: int
  timestamp :: int

text \<open>
  \<open>AgentSession\<close>. The fields \<open>id\<close>, \<open>agent\<close>, \<open>summary\<close> and \<open>summaryTokens\<close> carry
  the prefix \<open>session_\<close> here, because the plain names are taken.
\<close>

record AgentSession =
  session_id :: string
  session_agent :: string
  messages :: "Message list"
  session_summary :: string
  session_summaryTokens :: int
  totalTokens :: int
  messageCount :: int
  createdAt :: int
  updatedAt :: int

text \<open>
  \<open>SessionConfig\<close> as the caller gives it, every field optional, and
  \<open>Required<SessionConfig>\<close> after the merge with \<open>DEFAULT_CONFIG\<close>. \<open>keepRecentMessages\<close> is
  a number of messages, a natural number.
\<close>

record SessionConfig =
  opt_maxTokens :: "int option"
  opt_keepRecentMessages :: "nat option"
  opt_autoSave :: "bool option"

record RequiredSessionConfig =
  cfg_maxTokens :: int
  keepRecentMessages :: nat
  autoSave :: bool

definition DEFAULT_CONFIG :: RequiredSessionConfig where
  "DEFAULT_CONFIG = \<lparr>cfg_maxTokens = 8000, keepRecentMessages = 10, autoSave = True\<rparr>"

text \<open>\<^verbatim>\<open>{ ...DEFAULT_CONFIG, ...config }\<close>\<close>

definition merge_config :: "SessionConfig \<Rightarrow> RequiredSessionConfig" where
  "merge_config config =
     \<lparr>cfg_maxTokens = (case opt_maxTokens config of
                         None \<Rightarrow> cfg_maxTokens DEFAULT_CONFIG | Some v \<Rightarrow> v),
      keepRecentMessages = (case opt_keepRecentMessages config of
                              None \<Rightarrow> keepRecentMessages DEFAULT_CONFIG | Some v \<Rightarrow> v),
      autoSave = (case opt_autoSave config of
                    None \<Rightarrow> autoSave DEFAULT_CONFIG | Some v \<Rightarrow> v)\<rparr>"

text \<open>
  What a call reads from outside the program: whether the summarizer answers its probe
  (\<open>isSummarizerAvailable\<close>), the summarization service, and the clock.
\<close>

record session_env =
  summarizer_available :: bool
  service :: ollama_service
  clock :: int

text \<open>
  \<open>compressSession\<close>. The split index \<^verbatim>\<open>Math.max(0, session.messages.length - keepRecentMessages)\<close>
  is the truncating difference of natural numbers. \<open>summarizeIfNeeded\<close> handles a failing
  service itself, so the \<^verbatim>\<open>catch\<close> branch around its call is never entered and has no
  counterpart here.
\<close>

definition compressSession :: "session_env \<Rightarrow> AgentSession \<Rightarrow> RequiredSessionConfig \<Rightarrow> AgentSession"
where
  "compressSession env session config =
     (let splitIndex = length (messages session) - keepRecentMessages config;
          oldMessages = take splitIndex (messages session);
          recentMessages = drop splitIndex (messages session)
      in if length oldMessages = 0 then session
         else
           (let oldText = js_join ''\<newline>\<newline>''
                            (map (\<lambda>m. role_string (role m) @ '': '' @ content m) oldMessages);
                textToSummarize =
                  (if session_summary session \<noteq> []
                   then ''Previous summary:\<newline>'' @ session_summary session
                        @ ''\<newline>\<newline>New messages:\<newline>'' @ oldText
                   else oldText);
                recentTokens = foldl (\<lambda>total m. total + tokens m) 0 recentMessages;
                targetSummaryTokens =
                  \<lfloor>js_times (of_int (cfg_maxTokens config - recentTokens))
                     (to_double (3 / 10))\<rfloor>;
                newSummary =
                  (if summarizer_available env
                   then summarizeIfNeeded (service env) textToSummarize targetSummaryTokens
                          \<lparr>maxLength = None, preserveCode = None, format = None\<rparr>
                   else js_slice textToSummarize 0 (targetSummaryTokens * 4));
                summaryTokens = estimateTokens newSummary;
                newTotalTokens = summaryTokens + recentTokens
            in session
                 \<lparr>messages := recentMessages,
                  session_summary := newSummary,
                  session_summaryTokens := summaryTokens,
                  totalTokens := newTotalTokens,
                  updatedAt := clock env\<rparr>))"

text \<open>
  \<open>addMessage\<close>. The result is the session that the function returns; with \<open>autoSave\<close> the
  same value is also written to the session file.
\<close>

definition addMessage ::
  "session_env \<Rightarrow> AgentSession \<Rightarrow> role \<Rightarrow> string \<Rightarrow> SessionConfig \<Rightarrow> AgentSession"
where
  "addMessage env session r text config =
     (let cfg = merge_config config;
          message = \<lparr>role = r, content = text, tokens = estimateTokens text,
                     timestamp = clock env\<rparr>;
          total = totalTokens session + estimateTokens text;
          updatedSession = session
            \<lparr>messages := messages session @ [message],
             totalTokens := total,
             messageCount := messageCount session + 1,
             updatedAt := clock env\<rparr>
      in if total > cfg_maxTokens cfg then compressSession env updatedSession cfg
         else updatedSession)"

text \<open>A session of three messages and an environment without summarizer, for concrete runs.\<close>

definition sample_session :: AgentSession where
  "sample_session =
     \<lparr>session_id = ''ollama_m1_ab12'', session_agent = ''ollama'',
      messages =
        [\<lparr>role = User, content = ''hello'', tokens = 2, timestamp = 1\<rparr>,
         \<lparr>role = Assistant, content = ''hi there'', tokens = 2, timestamp = 2\<rparr>,
         \<lparr>role = User, content = ''bye'', tokens = 1, timestamp = 3\<rparr>],
      session_summary = [], session_summaryTokens = 0, totalTokens = 5, messageCount = 3,
      createdAt = 1, updatedAt = 3\<rparr>"

definition offline_env :: session_env where
  "offline_env =
     \<lparr>summarizer_available = False, service = failing_service Unavailable, clock = 4\<rparr>"

text \<open>An environment whose summarizer answers the probe and then fails on the request.\<close>

definition flaky_env :: session_env where
  "flaky_env =
     \<lparr>summarizer_available = True, service = failing_service Timeout, clock = 4\<rparr>"

section \<open>Memory store and retriever\<close>

text \<open>
  The store is \<open>memory/vector-store.ts\<close>, in the sources the second part of
  \<open>src/memory/sessions.ts\<close>; the retriever is \<open>src/memory/retriever.ts\<close>.
\<close>

datatype MemoryType = Conversation | Code | Decision | Pattern | Context

text \<open>
  \<open>MemoryItem\<close>, with the prefix \<open>item_\<close> on its fields; \<open>metadata\<close> is kept as its JSON
  text. An absent optional field is \<open>None\<close>.
\<close>

record MemoryItem =
  item_id :: "int option"
  item_type :: MemoryType
  item_content :: string
  item_metadata :: "string option"
  item_createdAt :: "int option"
  item_updatedAt :: "int option"

text \<open>Scores and distances are doubles, here the rationals that they denote.\<close>

record SearchResult =
  item :: MemoryItem
  score :: rat

datatype EmbeddingProvider = ProviderOllama | ProviderFts5

datatype SearchMethod = Vector | Fts5 | Recency

text \<open>A row of the LanceDB table, as the vector search returns it.\<close>

record vector_row =
  row_content :: string
  row_type :: MemoryType
  row_distance :: rat

text \<open>
  What the store reads from outside the program: the cached provider flag of
  \<open>embeddings.ts\<close> (\<open>getProvider\<close>), whether LanceDB opens its table during
  initialization, the embedding of a query (\<open>None\<close> when \<open>embed\<close> yields nothing or
  fails), the nearest-neighbour search (\<open>None\<close> when it fails), and the two SQLite
  queries \<open>searchFTS\<close> and \<open>getRecent\<close>, each with its optional type filter and its limit.
\<close>

record store_env =
  provider :: EmbeddingProvider
  lance_opens :: bool
  embed :: "string \<Rightarrow> rat list option"
  lance_search :: "rat list \<Rightarrow> nat \<Rightarrow> vector_row list option"
  searchFTS :: "string \<Rightarrow> MemoryType option \<Rightarrow> nat \<Rightarrow> SearchResult list"
  getRecent :: "MemoryType option \<Rightarrow> nat \<Rightarrow> MemoryItem list"

text \<open>The module variables \<open>initialized\<close> and \<open>lanceTable\<close> (\<open>True\<close> when not null).\<close>

record store_state =
  initialized :: bool
  lanceTable :: bool

definition initVectorStore :: "store_env \<Rightarrow> store_state \<Rightarrow> store_state" where
  "initVectorStore env st =
     (if initialized st then st
      else \<lparr>initialized = True,
            lanceTable = (if provider env = ProviderOllama then lance_opens env
                          else lanceTable st)\<rparr>)"

text \<open>\<^verbatim>\<open>options.limit || 10\<close>\<close>

definition limit_or_10 :: "nat \<Rightarrow> nat" where
  "limit_or_10 n = (if n = 0 then 10 else n)"

definition searchVector ::
  "store_env \<Rightarrow> store_state \<Rightarrow> string \<Rightarrow> MemoryType option \<Rightarrow> nat \<Rightarrow> SearchResult list"
where
  "searchVector env st q ty n =
     (if \<not> lanceTable st \<or> provider env \<noteq> ProviderOllama then searchFTS env q ty n
      else
        (case embed env q of
           None \<Rightarrow> searchFTS env q ty n
         | Some queryEmbedding \<Rightarrow>
             (case lance_search env queryEmbedding (limit_or_10 n) of
                None \<Rightarrow> searchFTS env q ty n
              | Some results \<Rightarrow>
                  map (\<lambda>r. \<lparr>item = \<lparr>item_id = None, item_type = row_type r,
                                      item_content = row_content r, item_metadata = None,
                                      item_createdAt = None, item_updatedAt = None\<rparr>,
                             score = to_double (1 - row_distance r)\<rparr>)
                    (case ty of
                       None \<Rightarrow> results
                     | Some t \<Rightarrow> filter (\<lambda>r. row_type r = t) results))))"

text \<open>\<open>search\<close> initializes the store on its first call and returns the new module state too.\<close>

definition search ::
  "store_env \<Rightarrow> store_state \<Rightarrow> string \<Rightarrow> MemoryType option \<Rightarrow> nat
     \<Rightarrow> SearchResult list \<times> store_state"
where
  "search env st q ty n =
     (let st' = initVectorStore env st
      in if lanceTable st' \<and> provider env = ProviderOllama
         then (searchVector env st' q ty n, st')
         else (searchFTS env q ty n, st'))"

text \<open>
  \<open>RetrievalOptions\<close> with the prefix \<open>ret_\<close>; \<open>limit\<close> is a number of items, a natural
  number. \<open>RetrievalResult\<close> has \<open>totalTokens\<close> as \<open>res_totalTokens\<close>.
\<close>

record RetrievalOptions =
  ret_limit :: "nat option"
  ret_types :: "MemoryType list option"
  ret_includeRecent :: "bool option"
  ret_minScore :: "rat option"
  ret_maxTokens :: "int option"

record RetrievalResult =
  items :: "MemoryItem list"
  res_totalTokens :: int
  searchMethod :: SearchMethod

text \<open>The retriever's own estimate, \<^verbatim>\<open>Math.ceil(text.length / 4)\<close>.\<close>

definition retriever_estimateTokens :: "string \<Rightarrow> int" where
  "retriever_estimateTokens text = \<lceil>real (length text) / 4\<rceil>"

text \<open>
  The search phase of \<open>retrieve\<close>: one call of \<open>search\<close> for each requested type with
  \<^verbatim>\<open>Math.ceil(limit / types.length)\<close> as its limit, or one call over all types.
\<close>

definition search_all ::
  "store_env \<Rightarrow> store_state \<Rightarrow> string \<Rightarrow> MemoryType list option \<Rightarrow> nat
     \<Rightarrow> SearchResult list \<times> store_state"
where
  "search_all env st q tys n =
     (case tys of
        None \<Rightarrow> search env st q None n
      | Some ts \<Rightarrow>
          if length ts > 0
          then foldl (\<lambda>(results, s) t.
                        (let (typeResults, s') =
                               search env s q (Some t) ((n + length ts - 1) div length ts)
                         in (results @ typeResults, s')))
                 ([], st) ts
          else search env st q None n)"

text \<open>
  The results above the minimum score, sorted by descending score
  (\<^verbatim>\<open>filtered.sort((a, b) => b.score - a.score)\<close>, a stable sort).
\<close>

definition ranked_results :: "rat \<Rightarrow> SearchResult list \<Rightarrow> SearchResult list" where
  "ranked_results minimum results =
     sort_key (\<lambda>r. - score r) (filter (\<lambda>r. score r \<ge> minimum) results)"

text \<open>
  The recent items that are appended when there is room: those whose id is not among the
  ids of the ranked results, each with the score \<^verbatim>\<open>0.05\<close>.
\<close>

definition recent_backfill ::
  "store_env \<Rightarrow> MemoryType list option \<Rightarrow> nat \<Rightarrow> SearchResult list \<Rightarrow> SearchResult list"
where
  "recent_backfill env tys n ranked =
     (let recentType = (case tys of
                          None \<Rightarrow> None
                        | Some ts \<Rightarrow> if length ts > 0 then Some (hd ts) else None);
          recentItems = getRecent env recentType (n - length ranked);
          existingIds = set (map (\<lambda>r. item_id (item r)) ranked)
      in map (\<lambda>i. \<lparr>item = i, score = to_double (5 / 100)\<rparr>)
           (filter (\<lambda>i. item_id i \<notin> existingIds) recentItems))"

text \<open>The candidate list after \<^verbatim>\<open>filtered.slice(0, limit)\<close>.\<close>

definition candidates ::
  "store_env \<Rightarrow> store_state \<Rightarrow> string \<Rightarrow> RetrievalOptions \<Rightarrow> SearchResult list"
where
  "candidates env st q options =
     (let n = (case ret_limit options of None \<Rightarrow> 10 | Some v \<Rightarrow> v);
          includeRecent = (case ret_includeRecent options of None \<Rightarrow> True | Some b \<Rightarrow> b);
          minimum = (case ret_minScore options of None \<Rightarrow> to_double (1 / 10) | Some v \<Rightarrow> v);
          ranked = ranked_results minimum (fst (search_all env st q (ret_types options) n))
      in take n
           (if includeRecent \<and> length ranked < n
            then ranked @ recent_backfill env (ret_types options) n ranked
            else ranked))"

text \<open>
  The token loop: \<^verbatim>\<open>if (totalTokens + itemTokens > maxTokens) break\<close>, else push the item
  and add its tokens.
\<close>

fun pack_items ::
  "int \<Rightarrow> MemoryItem list \<times> int \<Rightarrow> SearchResult list \<Rightarrow> MemoryItem list \<times> int"
where
  "pack_items cap (acc, used) [] = (acc, used)"
| "pack_items cap (acc, used) (r # rs) =
     (if used + retriever_estimateTokens (item_content (item r)) > cap then (acc, used)
      else pack_items cap
             (acc @ [item r], used + retriever_estimateTokens (item_content (item r))) rs)"

definition retrieve ::
  "store_env \<Rightarrow> store_state \<Rightarrow> string \<Rightarrow> RetrievalOptions \<Rightarrow> RetrievalResult" where
  "retrieve env st q options =
     (let maxTokens = (case ret_maxTokens options of None \<Rightarrow> 4000 | Some v \<Rightarrow> v);
          method = (if provider env = ProviderOllama then Vector else Fts5);
          (accepted, used) = pack_items maxTokens ([], 0) (candidates env st q options)
      in \<lparr>items = accepted, res_totalTokens = used, searchMethod = method\<rparr>)"


definition recency_only_store :: store_env where
  "recency_only_store =
     \<lparr>provider = ProviderOllama, lance_opens = False,
      embed = (\<lambda>q. None), lance_search = (\<lambda>v n. None),
      searchFTS = (\<lambda>q ty n. []),
      getRecent = (\<lambda>ty n.
        [\<lparr>item_id = Some 7, item_type = Conversation, item_content = ''recent note'',
          item_metadata = None, item_createdAt = Some 30, item_updatedAt = Some 30\<rparr>])\<rparr>"


section \<open>Pipeline memory (in the sources the second part of src/context/tokens.ts)\<close>

text \<open>
  \<open>StepOutput\<close>; the fields \<open>summary\<close>, \<open>tokens\<close>, \<open>summaryTokens\<close> and \<open>timestamp\<close> carry the
  prefix \<open>step_\<close>.
\<close>

record StepOutput =
  raw :: string
  step_summary :: string
  step_tokens :: int
  step_summaryTokens :: int
  keyPoints :: "string list"
  step_timestamp :: int

text \<open>
  Modelled from the spec: the type \<open>StepResult\<close> is declared in \<open>executor/types\<close>, which is
  not among the sources. The fields are those that the pipeline memory reads: the step id,
  the optional content, the status, and the optional error, model and duration.
\<close>

record StepResult =
  stepId :: string
  result_content :: "string option"
  status :: string
  result_error :: "string option"
  result_model :: "string option"
  result_duration :: "int option"

record MemoryConfig =
  targetAgent :: string
  summarizeThreshold :: int
  maxInjectionTokens :: int
  preferSummaries :: bool

text \<open>
  \<open>MemoryContext\<close>, with the fields of \<open>ExecutionContext\<close> that \<open>createMemoryContext\<close> sets; the
  values of \<open>initial\<close> are kept as their JSON text.
\<close>

record MemoryContext =
  initial :: "string \<rightharpoonup> string"
  steps :: "string \<rightharpoonup> StepResult"
  outputs :: "string \<rightharpoonup> string"
  prompt :: string
  memory :: "string \<rightharpoonup> StepOutput"
  memory_config :: MemoryConfig

text \<open>\<^verbatim>\<open>mem.keyPoints.length > 0 ? '- ' + mem.keyPoints.join('\n- ') : ''\<close>\<close>

definition keyPointsStr :: "StepOutput \<Rightarrow> string" where
  "keyPointsStr mem =
     (if length (keyPoints mem) > 0
      then ''- '' @ js_join ''\<newline>- '' (keyPoints mem)
      else [])"

datatype js_exception = TypeError

text \<open>
  \<open>getStepOutputForBudget\<close>. \<open>ctx.memory\<close> is a plain object: for a step id that is not
  recorded but names an inherited property, \<open>mem\<close> is a function and reading
  \<^verbatim>\<open>mem.keyPoints.length\<close> throws. The half \<^verbatim>\<open>mem.summaryTokens * 0.5\<close> is exact; the
  quotient \<open>ratio\<close> and the two products of \<^verbatim>\<open>mem.summary.length * ratio * 0.9\<close> are
  rounded to doubles. The last branch is entered with \<open>summaryTokens = 0\<close> only for a
  negative budget; the ratio is then \<open>-Infinity\<close>, and \<^verbatim>\<open>slice(0, -Infinity)\<close> and
  \<^verbatim>\<open>slice(0, NaN)\<close> are both empty.
\<close>

definition getStepOutputForBudget ::
  "MemoryContext \<Rightarrow> string \<Rightarrow> int \<Rightarrow> js_exception + string" where
  "getStepOutputForBudget ctx sid tokenBudget =
     (case memory ctx sid of
        None \<Rightarrow>
          (if sid \<in> set inherited_keys then Inl TypeError
           else
             (case steps ctx sid of
                None \<Rightarrow> Inr []
              | Some step \<Rightarrow> (case result_content step of None \<Rightarrow> Inr [] | Some c \<Rightarrow> Inr c)))
      | Some mem \<Rightarrow>
          (let keyPointsTokens = estimateTokens (keyPointsStr mem)
           in if keyPointsTokens > 0
                 \<and> real_of_int tokenBudget < real_of_int (step_summaryTokens mem) * 0.5
                 \<and> keyPointsTokens \<le> tokenBudget
              then Inr (keyPointsStr mem)
              else if step_summaryTokens mem \<le> tokenBudget then Inr (step_summary mem)
              else
                Inr ((if step_summaryTokens mem = 0 then []
                      else
                        (let ratio = js_over (of_int tokenBudget)
                                       (of_int (step_summaryTokens mem));
                             targetChars =
                               \<lfloor>js_times (js_times (of_nat (length (step_summary mem))) ratio)
                                  (to_double (9 / 10))\<rfloor>
                         in js_slice (step_summary mem) 0 targetChars))
                     @ truncation_marker)))"

text \<open>
  The length of the truncation in the words of the specification: \<open>tokenBudget \<times> ratio \<times> 0.9\<close>
  characters, where \<open>ratio = tokenBudget / summaryTokens\<close>.
\<close>

definition claimed_truncation_length :: "int \<Rightarrow> int \<Rightarrow> int" where
  "claimed_truncation_length tokenBudget summaryTokens' =
     \<lfloor>real_of_int tokenBudget
        * (real_of_int tokenBudget / real_of_int summaryTokens') * 0.9\<rfloor>"

text \<open>A recorded step with a summary of 40 characters and two key points, for concrete runs.\<close>

definition sample_output :: StepOutput where
  "sample_output =
     \<lparr>raw = ''0123456789012345678901234567890123456789'',
      step_summary = ''0123456789012345678901234567890123456789'',
      step_tokens = 10, step_summaryTokens = 10, keyPoints = [''a'', ''b''],
      step_timestamp = 1\<rparr>"

text \<open>A recorded step with a summary of 88 characters, 22 tokens, and no key points.\<close>

definition long_output :: StepOutput where
  "long_output =
     \<lparr>raw = replicate 88 CHR ''x'', step_summary = replicate 88 CHR ''x'',
      step_tokens = 22, step_summaryTokens = 22, keyPoints = [], step_timestamp = 2\<rparr>"

definition sample_context :: MemoryContext where
  "sample_context =
     \<lparr>initial = Map.empty, steps = Map.empty, outputs = Map.empty, prompt = ''go'',
      memory = [''step1'' \<mapsto> sample_output, ''step2'' \<mapsto> long_output],
      memory_config = \<lparr>targetAgent = ''ollama'', summarizeThreshold = 2000,
                        maxInjectionTokens = 4000, preferSummaries = True\<rparr>\<rparr>"

section \<open>Verified properties\<close>

subsection \<open>Token estimate\<close>

lemma estimateTokens_div: "estimateTokens text = (int (length text) + 3) div 4"
proof -
  have "\<lceil>real (length text) / 4\<rceil> = - \<lfloor>- (real (length text) / 4)\<rfloor>"
    by (simp add: ceiling_def)
  also have "- (real (length text) / 4) = real_of_int (- int (length text)) / real_of_int 4"
    by simp
  also have "\<lfloor>real_of_int (- int (length text)) / real_of_int 4\<rfloor> = (- int (length text)) div 4"
    by (rule floor_divide_of_int_eq)
  also have "- ((- int (length text)) div 4) = (int (length text) + 3) div 4"
    by presburger
  finally show ?thesis
    by (simp add: estimateTokens_def CHARS_PER_TOKEN_def)
qed

text \<open>
  C8. For every text the token estimate is the ceiling of the text's length divided by
  four, and the estimate of the empty string is zero.
\<close>

theorem estimateTokens_ceiling:
  "estimateTokens text = \<lceil>real (length text) / 4\<rceil> \<and> estimateTokens [] = 0"
  by (simp add: estimateTokens_def CHARS_PER_TOKEN_def)

theorem estimateTokens_ceiling_witness:
  "estimateTokens ''hello'' = 2 \<and> estimateTokens [] = 0"
  using estimateTokens_ceiling [of "''hello''"] estimateTokens_div [of "''hello''"] by simp

subsection \<open>Rounding to doubles\<close>

text \<open>Rounding keeps the sign, which is all that the general statements below need.\<close>

lemma pow2_pos: "0 < pow2 e"
  by (simp add: pow2_def)

lemma round_half_even_nonneg: "0 \<le> x \<Longrightarrow> 0 \<le> round_half_even x"
  by (auto simp: round_half_even_def Let_def)

lemma to_double_nonneg: "0 \<le> x \<Longrightarrow> 0 \<le> to_double x"
proof -
  assume x: "0 \<le> x"
  have "0 \<le> x / pow2 (binary_exponent x - 52)"
    using x pow2_pos [of "binary_exponent x - 52"] by simp
  then have "0 \<le> round_half_even (x / pow2 (binary_exponent x - 52))"
    by (rule round_half_even_nonneg)
  then have "0 \<le> rat_of_int (round_half_even (x / pow2 (binary_exponent x - 52)))
                  * pow2 (binary_exponent x - 52)"
    using pow2_pos [of "binary_exponent x - 52"] by simp
  then show ?thesis
    using x by (simp add: to_double_def Let_def)
qed

lemma to_double_minus: "to_double (- x) = - to_double x"
  by (simp add: to_double_def Let_def)

lemma to_double_nonpos: "x \<le> 0 \<Longrightarrow> to_double x \<le> 0"
  using to_double_nonneg [of "- x"] by (simp add: to_double_minus)

lemma js_times_nonneg: "0 \<le> a \<Longrightarrow> 0 \<le> b \<Longrightarrow> 0 \<le> js_times a b"
  by (simp add: js_times_def to_double_nonneg)

lemma js_over_nonneg: "0 \<le> a \<Longrightarrow> 0 \<le> b \<Longrightarrow> 0 \<le> js_over a b"
  by (simp add: js_over_def to_double_nonneg)

text \<open>
  Some values: the double of \<open>0.7\<close> lies below \<open>7/10\<close>, and so
  \<^verbatim>\<open>180 * 0.7\<close> is \<open>125.99999999999999\<close>, not \<open>126\<close>, while \<^verbatim>\<open>10 * 0.7\<close> is \<open>7\<close>.
\<close>

lemma to_double_values:
  "to_double (7 / 10) = 6305039478318694 / 9007199254740992"
  "js_times 180 (to_double (7 / 10)) = 126 - 1 / 2 ^ 46"
  "js_times 10 (to_double (7 / 10)) = 7"
  "to_double (1 / 2) = 1 / 2"
  by code_simp+

subsection \<open>Truncation\<close>

lemma length_js_slice_le: "length (js_slice s start fin) \<le> length s"
  by (simp add: js_slice_def Let_def)

lemma length_js_slice_0: "0 \<le> fin \<Longrightarrow> int (length (js_slice s 0 fin)) \<le> fin"
  by (simp add: js_slice_def js_index_def Let_def)

lemma estimateTokens_marker: "estimateTokens truncation_marker = 4"
  by (simp add: estimateTokens_div truncation_marker_def)

lemma estimateTokens_append_marker:
  "int (length x) \<le> 4 * a \<Longrightarrow> estimateTokens (x @ truncation_marker) \<le> a + 4"
  by (simp add: estimateTokens_div truncation_marker_def)

lemma available_config:
  "ADAPTER_LIMITS agent = Some config \<Longrightarrow>
   getAvailableTokens agent usedTokens
     = Some (maxTokens config - reserveTokens config - usedTokens)"
  by (simp add: getAvailableTokens_def getTokenConfig_def)

lemma available_ollama:
  "getAvailableTokens ''ollama'' usedTokens = Some (7000 - usedTokens)"
  by (simp add: getAvailableTokens_def getTokenConfig_def ADAPTER_LIMITS_def ollama_limits_def)

text \<open>A text that fits the character budget is returned as it is, whatever the budget.\<close>

lemma truncateForAgent_fits:
  "getAvailableTokens agent usedTokens = Some available \<Longrightarrow>
   int (length text) \<le> available * 4 \<Longrightarrow>
   truncateForAgent text agent usedTokens = text"
  by (simp add: truncateForAgent_def Let_def CHARS_PER_TOKEN_def)

text \<open>
  A text that does not fit comes back as one of its prefixes followed by the marker,
  whichever of the two boundary tests succeeds.
\<close>

lemma truncateForAgent_cut:
  assumes "getAvailableTokens agent usedTokens = Some available"
    and "\<not> int (length text) \<le> available * 4"
  shows "\<exists>e. truncateForAgent text agent usedTokens
             = js_slice (js_slice text 0 (available * 4)) 0 e @ truncation_marker"
proof -
  define t where "t = js_slice text 0 (available * 4)"
  have whole: "js_slice t 0 (int (length t)) = t"
    by (simp add: js_slice_def js_index_def)
  have "truncateForAgent text agent usedTokens
          \<in> {js_slice t 0 (lastIndexOf t ''\<newline>\<newline>'') @ truncation_marker,
             js_slice t 0 (lastIndexOf t ''. '' + 1) @ truncation_marker,
             js_slice t 0 (int (length t)) @ truncation_marker}"
    using assms
    by (simp add: truncateForAgent_def Let_def CHARS_PER_TOKEN_def t_def [symmetric] whole)
  then show ?thesis
    unfolding t_def [symmetric] by blast
qed

text \<open>
  With a budget that is not negative the result exceeds the budget by at most the four
  tokens of the marker.
\<close>

lemma truncateForAgent_bound:
  assumes "getAvailableTokens agent usedTokens = Some available" and "0 \<le> available"
  shows "estimateTokens (truncateForAgent text agent usedTokens) \<le> available + 4"
proof (cases "int (length text) \<le> available * 4")
  case True
  then have "truncateForAgent text agent usedTokens = text"
    using assms(1) by (simp add: truncateForAgent_fits)
  moreover have "estimateTokens text \<le> available"
    using True by (simp add: estimateTokens_div)
  ultimately show ?thesis
    by simp
next
  case False
  from truncateForAgent_cut [OF assms(1) False] obtain e where
    cut: "truncateForAgent text agent usedTokens
            = js_slice (js_slice text 0 (available * 4)) 0 e @ truncation_marker"
    by blast
  have "int (length (js_slice text 0 (available * 4))) \<le> available * 4"
    using assms(2) by (simp add: length_js_slice_0)
  then have "int (length (js_slice (js_slice text 0 (available * 4)) 0 e)) \<le> 4 * available"
    using length_js_slice_le [of "js_slice text 0 (available * 4)" 0 e] by linarith
  then show ?thesis
    by (simp add: cut estimateTokens_append_marker)
qed

text \<open>
  With a negative budget no text fits, the marker is appended to whatever is kept, and the
  four tokens of the marker alone are above the bound.
\<close>

lemma truncateForAgent_negative:
  assumes "getAvailableTokens agent usedTokens = Some available" and "available < 0"
  shows "available + 4 < estimateTokens (truncateForAgent text agent usedTokens)"
proof -
  have "\<not> int (length text) \<le> available * 4"
    using assms(2) by simp
  from truncateForAgent_cut [OF assms(1) this] obtain e where
    "truncateForAgent text agent usedTokens
       = js_slice (js_slice text 0 (available * 4)) 0 e @ truncation_marker"
    by blast
  then have "4 \<le> estimateTokens (truncateForAgent text agent usedTokens)"
    by (simp add: estimateTokens_div truncation_marker_def)
  then show ?thesis
    using assms(2) by simp
qed

text \<open>
  For a target that is an inherited property name the budget is \<^verbatim>\<open>NaN\<close> and every text,
  the empty one too, comes back as the marker alone.
\<close>

lemma getTokenConfig_inherited:
  "agent \<in> set inherited_keys \<Longrightarrow> getTokenConfig agent = Inherited"
  by (auto simp: getTokenConfig_def inherited_keys_def ADAPTER_LIMITS_def)

lemma truncateForAgent_inherited:
  "agent \<in> set inherited_keys \<Longrightarrow> truncateForAgent text agent usedTokens = truncation_marker"
  by (simp add: truncateForAgent_def getAvailableTokens_def getTokenConfig_inherited)

text \<open>
  The paragraph test is a test on doubles: with a character budget of 180 the threshold
  \<^verbatim>\<open>180 * 0.7\<close> is \<open>125.99999999999999\<close>, and a paragraph break at index 126 is taken.
\<close>

lemma truncateForAgent_paragraph_at_126:
  "truncateForAgent (replicate 126 CHR ''a'' @ ''\<newline>\<newline>'' @ replicate 72 CHR ''b'') ''ollama'' 6955
     = replicate 126 CHR ''a'' @ ''\<newline>\<newline>[...truncated]''"
  by code_simp

text \<open>
  C1 (amended). For every text, target and count of tokens already used for which the
  available budget is a number that is not negative, the estimated token count of the
  result of \<open>truncateForAgent\<close> exceeds the budget by no more than the token cost of one
  marker, which is four tokens; and for every budget, a text whose length fits the
  character budget \<open>available * 4\<close> is returned as it is.
\<close>

theorem truncateForAgent_within_budget:
  assumes "getAvailableTokens agent usedTokens = Some available"
  shows "(0 \<le> available \<longrightarrow>
            estimateTokens (truncateForAgent text agent usedTokens)
              \<le> available + estimateTokens ''\<newline>\<newline>[...truncated]'')
         \<and> estimateTokens ''\<newline>\<newline>[...truncated]'' = 4
         \<and> (int (length text) \<le> available * 4 \<longrightarrow>
              truncateForAgent text agent usedTokens = text)"
proof -
  have "estimateTokens ''\<newline>\<newline>[...truncated]'' = 4"
    by (simp add: estimateTokens_div)
  then show ?thesis
    using truncateForAgent_bound [OF assms, of "text"] truncateForAgent_fits [OF assms, of "text"]
    by simp
qed

text \<open>
  Two runs with the target \<open>ollama\<close> and 6999 tokens used, a budget of one token or four
  characters: a text of eight characters is cut to four characters and the marker, five
  tokens; a text of three characters comes back unchanged.
\<close>

theorem truncateForAgent_within_budget_witness:
  "getAvailableTokens ''ollama'' 6999 = Some 1
   \<and> truncateForAgent ''abcdefgh'' ''ollama'' 6999 = ''abcd\<newline>\<newline>[...truncated]''
   \<and> estimateTokens (truncateForAgent ''abcdefgh'' ''ollama'' 6999) \<le> 1 + 4
   \<and> truncateForAgent ''abc'' ''ollama'' 6999 = ''abc''"
proof -
  have a: "getAvailableTokens ''ollama'' 6999 = Some 1"
    by (simp add: available_ollama)
  have "truncateForAgent ''abcdefgh'' ''ollama'' 6999 = ''abcd\<newline>\<newline>[...truncated]''"
    by code_simp
  moreover have "estimateTokens (truncateForAgent ''abcdefgh'' ''ollama'' 6999) \<le> 1 + 4"
    using truncateForAgent_within_budget [OF a, of "''abcdefgh''"] by simp
  moreover have "truncateForAgent ''abc'' ''ollama'' 6999 = ''abc''"
    using truncateForAgent_within_budget [OF a, of "''abc''"] by simp
  ultimately show ?thesis
    using a by simp
qed

text \<open>
  C1, as stated, also covers the counts that make the budget negative. With the target
  \<open>ollama\<close> and 7001 tokens used the budget is \<open>-1\<close>, and the empty text comes back as the
  marker: four tokens, against the three that the claim allows.
\<close>

theorem truncateForAgent_negative_budget_counterexample:
  "getAvailableTokens ''ollama'' 7001 = Some (- 1)
   \<and> truncateForAgent [] ''ollama'' 7001 = ''\<newline>\<newline>[...truncated]''
   \<and> estimateTokens (truncateForAgent [] ''ollama'' 7001) = 4
   \<and> \<not> estimateTokens (truncateForAgent [] ''ollama'' 7001)
         \<le> - 1 + estimateTokens ''\<newline>\<newline>[...truncated]''"
proof -
  have a: "getAvailableTokens ''ollama'' 7001 = Some (- 1)"
    by (simp add: available_ollama)
  have "truncateForAgent [] ''ollama'' 7001 = ''\<newline>\<newline>[...truncated]''"
    by code_simp
  then show ?thesis
    using a by (simp add: estimateTokens_div)
qed

subsection \<open>Summarization: service failure and the compression ratio\<close>

lemma js_slice_0_take: "0 \<le> fin \<Longrightarrow> js_slice s 0 fin = take (nat fin) s"
  by (simp add: js_slice_def js_index_def Let_def min_def)

lemma estimateTokens_pos_iff: "0 < estimateTokens s \<longleftrightarrow> s \<noteq> []"
  by (cases s) (simp_all add: estimateTokens_div)

lemma estimateTokens_nonneg: "0 \<le> estimateTokens s"
  by (simp add: estimateTokens_div)

lemma summarize_failure_eq:
  assumes "effective_maxLength options < estimateTokens text"
    and "ollama (summarize_prompt (effective_maxLength options)
           (if effective_preserveCode options then snd (extractCodeBlocks text) else text))
         = Inl err"
  shows "summarize ollama text options =
           \<lparr>summary = js_slice text 0 (effective_maxLength options * 4) @ failure_tag,
            originalTokens = estimateTokens text,
            summaryTokens =
              estimateTokens (js_slice text 0 (effective_maxLength options * 4) @ failure_tag),
            compressionRatio = Finite 1\<rparr>"
  using assms
  by (cases "extractCodeBlocks text"; cases "effective_preserveCode options")
     (simp_all add: summarize_def Let_def)

lemma summarize_success_eq:
  assumes "effective_maxLength options < estimateTokens text"
    and "ollama (summarize_prompt (effective_maxLength options)
           (if effective_preserveCode options then snd (extractCodeBlocks text) else text))
         = Inr response"
  shows "summarize ollama text options =
           (let restored =
                  (if effective_preserveCode options \<and> 0 < length (fst (extractCodeBlocks text))
                   then restoreCodeBlocks (trim response) (fst (extractCodeBlocks text))
                   else trim response)
            in \<lparr>summary = restored, originalTokens = estimateTokens text,
                 summaryTokens = estimateTokens restored,
                 compressionRatio = js_divide (estimateTokens text) (estimateTokens restored)\<rparr>)"
  using assms
  by (cases "extractCodeBlocks text"; cases "effective_preserveCode options")
     (simp_all add: summarize_def Let_def)

lemma no_fence_extract:
  "CHR 0x60 \<notin> set s \<Longrightarrow> extractCodeBlocks s = ([], s)"
proof -
  assume none: "CHR 0x60 \<notin> set s"
  have "indexOf t fence = None" if "CHR 0x60 \<notin> set t" for t
    using that by (induction t) (auto simp: fence_def prefix_def)
  with none show ?thesis
    unfolding extractCodeBlocks_def by (subst extract_from.simps) simp
qed

text \<open>
  For a \<open>maxLength\<close> that is not negative the fallback is as the claim C5 describes it:
  the first \<open>maxLength * 4\<close> characters of the original text, a blank line and the tag,
  with the ratio 1. (\<open>maxLength\<close> is the value in force: the option, or 500 when the option
  is absent or zero.)
\<close>

lemma summarize_service_failure:
  assumes "effective_maxLength options < estimateTokens text"
    and "ollama (summarize_prompt (effective_maxLength options)
           (if effective_preserveCode options then snd (extractCodeBlocks text) else text))
         = Inl err"
    and "0 \<le> effective_maxLength options"
  shows "summary (summarize ollama text options)
           = take (nat (effective_maxLength options * 4)) text
             @ ''\<newline>\<newline>[...summarization failed, truncated]''
         \<and> compressionRatio (summarize ollama text options) = Finite 1
         \<and> originalTokens (summarize ollama text options) = estimateTokens text
         \<and> summaryTokens (summarize ollama text options)
             = estimateTokens (summary (summarize ollama text options))"
  using summarize_failure_eq [of options "text" ollama err, OF assms(1,2)] assms(3)
  by (simp add: js_slice_0_take failure_tag_def)

lemma summarize_service_failure_run:
  "summarize (failing_service Timeout) ''0123456789abcdef''
     \<lparr>maxLength = Some 2, preserveCode = None, format = None\<rparr>
   = \<lparr>summary = ''01234567\<newline>\<newline>[...summarization failed, truncated]'',
      originalTokens = 4, summaryTokens = 12, compressionRatio = Finite 1\<rparr>"
  by code_simp

text \<open>
  C5. The claim gives the summary after a service failure as the first \<open>maxLength * 4\<close>
  characters of the text followed by the tag, for every text above \<open>maxLength\<close>. With
  \<open>maxLength = -1\<close> every text is above it, and the first \<open>-4\<close> characters are none; but
  \<^verbatim>\<open>text.slice(0, maxLength * 4)\<close> counts a negative end from the end of the text, and
  of the 16 characters of the text 12 are kept in front of the tag. The ratio is 1 and a
  result is returned, as claimed.
\<close>

theorem summarize_failure_negative_maxLength:
  "effective_maxLength \<lparr>maxLength = Some (- 1), preserveCode = None, format = None\<rparr> = - 1
   \<and> effective_maxLength \<lparr>maxLength = Some (- 1), preserveCode = None, format = None\<rparr>
       < estimateTokens ''0123456789abcdef''
   \<and> summarize (failing_service Timeout) ''0123456789abcdef''
         \<lparr>maxLength = Some (- 1), preserveCode = None, format = None\<rparr>
       = \<lparr>summary = ''0123456789ab\<newline>\<newline>[...summarization failed, truncated]'',
          originalTokens = 4, summaryTokens = 13, compressionRatio = Finite 1\<rparr>
   \<and> summary (summarize (failing_service Timeout) ''0123456789abcdef''
         \<lparr>maxLength = Some (- 1), preserveCode = None, format = None\<rparr>)
       \<noteq> take (nat (- 1 * 4)) ''0123456789abcdef''
           @ ''\<newline>\<newline>[...summarization failed, truncated]''"
proof -
  have "summarize (failing_service Timeout) ''0123456789abcdef''
          \<lparr>maxLength = Some (- 1), preserveCode = None, format = None\<rparr>
        = \<lparr>summary = ''0123456789ab\<newline>\<newline>[...summarization failed, truncated]'',
           originalTokens = 4, summaryTokens = 13, compressionRatio = Finite 1\<rparr>"
    by code_simp
  then show ?thesis
    by (simp add: effective_maxLength_def estimateTokens_div)
qed

text \<open>
  A negative \<open>maxLength\<close> is what \<open>compressSession\<close> passes on when the messages it keeps
  are above the session's token limit: with a limit of 2 and kept messages of 3 tokens the
  target is \<open>\<lfloor>-0.3\<rfloor> = -1\<close>, \<open>summarizeIfNeeded\<close> asks for \<open>maxLength = \<lfloor>-0.8\<rfloor> = -1\<close>, and
  after the failure of the service the 11 characters of the old message come back as 7
  characters and the tag.
\<close>

lemma compressSession_negative_maxLength:
  "session_summary (compressSession flaky_env sample_session
      \<lparr>cfg_maxTokens = 2, keepRecentMessages = 2, autoSave = False\<rparr>)
   = ''user: h\<newline>\<newline>[...summarization failed, truncated]''"
  by code_simp

text \<open>
  C9. On the success path the ratio is the quotient of the original and the summary token
  counts, computed without a test of the divisor. It is the finite quotient when the
  summary's token count is positive. When the restored summary is empty the count is 0,
  and the ratio is an infinity (or \<open>NaN\<close> for an empty original), not a quotient.
\<close>

theorem summarize_ratio_divisor:
  assumes "effective_maxLength options < estimateTokens text"
    and "ollama (summarize_prompt (effective_maxLength options)
           (if effective_preserveCode options then snd (extractCodeBlocks text) else text))
         = Inr response"
  shows "compressionRatio (summarize ollama text options)
           = js_divide (originalTokens (summarize ollama text options))
               (summaryTokens (summarize ollama text options))
       \<and> originalTokens (summarize ollama text options) = estimateTokens text
       \<and> summaryTokens (summarize ollama text options)
           = estimateTokens (summary (summarize ollama text options))
       \<and> (0 < summaryTokens (summarize ollama text options) \<longrightarrow>
            compressionRatio (summarize ollama text options)
              = Finite (real_of_int (originalTokens (summarize ollama text options))
                        / real_of_int (summaryTokens (summarize ollama text options))))
       \<and> (summary (summarize ollama text options) = [] \<longrightarrow>
            summaryTokens (summarize ollama text options) = 0
            \<and> compressionRatio (summarize ollama text options)
                = (if estimateTokens text = 0 then NaN else PosInfinity))"
proof -
  define restored where "restored =
     (if effective_preserveCode options \<and> 0 < length (fst (extractCodeBlocks text))
      then restoreCodeBlocks (trim response) (fst (extractCodeBlocks text))
      else trim response)"
  have eq: "summarize ollama text options =
      \<lparr>summary = restored, originalTokens = estimateTokens text,
       summaryTokens = estimateTokens restored,
       compressionRatio = js_divide (estimateTokens text) (estimateTokens restored)\<rparr>"
    using summarize_success_eq [of options "text" ollama response, OF assms]
    by (simp add: Let_def restored_def)
  have pos: "0 < estimateTokens restored \<Longrightarrow>
      js_divide (estimateTokens text) (estimateTokens restored)
        = Finite (real_of_int (estimateTokens text) / real_of_int (estimateTokens restored))"
    by (simp add: js_divide_def)
  have empty: "estimateTokens [] = 0"
    by (simp add: estimateTokens_def)
  show ?thesis
    using pos estimateTokens_nonneg [of "text"]
    by (auto simp: eq empty js_divide_def)
qed

theorem summarize_ratio_divisor_witness:
  "effective_maxLength \<lparr>maxLength = Some 2, preserveCode = None, format = None\<rparr>
     < estimateTokens ''0123456789abcdef''
   \<and> summary (summarize (\<lambda>prompt. Inr '' '') ''0123456789abcdef''
         \<lparr>maxLength = Some 2, preserveCode = None, format = None\<rparr>) = []
   \<and> compressionRatio (summarize (\<lambda>prompt. Inr '' '') ''0123456789abcdef''
         \<lparr>maxLength = Some 2, preserveCode = None, format = None\<rparr>) = PosInfinity
   \<and> 0 < summaryTokens (summarize (\<lambda>prompt. Inr ''ab'') ''0123456789abcdef''
         \<lparr>maxLength = Some 2, preserveCode = None, format = None\<rparr>)
   \<and> compressionRatio (summarize (\<lambda>prompt. Inr ''ab'') ''0123456789abcdef''
         \<lparr>maxLength = Some 2, preserveCode = None, format = None\<rparr>) = Finite 4"
proof -
  let ?opts = "\<lparr>maxLength = Some 2, preserveCode = None, format = None\<rparr>"
  have above: "effective_maxLength ?opts < estimateTokens ''0123456789abcdef''"
    by (simp add: effective_maxLength_def estimateTokens_div)
  have blocks: "extractCodeBlocks ''0123456789abcdef'' = ([], ''0123456789abcdef'')"
    by (rule no_fence_extract) simp
  have empty: "summary (summarize (\<lambda>prompt. Inr '' '') ''0123456789abcdef'' ?opts) = []"
    by (simp add: summarize_success_eq [of ?opts "''0123456789abcdef''" _ "'' ''", OF above]
          blocks trim_def is_js_space_def Let_def)
  have full: "summary (summarize (\<lambda>prompt. Inr ''ab'') ''0123456789abcdef'' ?opts) = ''ab''"
    by (simp add: summarize_success_eq [of ?opts "''0123456789abcdef''" _ "''ab''", OF above]
          blocks trim_def is_js_space_def Let_def)
  have four: "estimateTokens ''0123456789abcdef'' = 4" "estimateTokens ''ab'' = 1"
    by (simp_all add: estimateTokens_div)
  note blank = summarize_ratio_divisor [of ?opts "''0123456789abcdef''" "\<lambda>prompt. Inr '' ''" "'' ''",
        OF above]
  note short = summarize_ratio_divisor [of ?opts "''0123456789abcdef''" "\<lambda>prompt. Inr ''ab''" "''ab''",
        OF above]
  have "compressionRatio (summarize (\<lambda>prompt. Inr '' '') ''0123456789abcdef'' ?opts) = PosInfinity"
    using blank empty four by (simp add: js_divide_def estimateTokens_def)
  moreover have tokens: "summaryTokens (summarize (\<lambda>prompt. Inr ''ab'') ''0123456789abcdef'' ?opts) = 1"
    using short full four by simp
  moreover have "compressionRatio (summarize (\<lambda>prompt. Inr ''ab'') ''0123456789abcdef'' ?opts) = Finite 4"
    using short tokens four by (simp add: js_divide_def)
  ultimately show ?thesis
    using above empty by simp
qed

subsection \<open>Code blocks under summarization\<close>

lemma indexOf_Some_prefix: "indexOf s pat = Some p \<Longrightarrow> prefix pat (drop p s)"
proof (induction s arbitrary: p)
  case Nil
  then show ?case by (simp split: if_splits)
next
  case (Cons c cs)
  then show ?case by (auto split: if_splits)
qed

lemma indexOf_Some_le: "indexOf s pat = Some p \<Longrightarrow> p + length pat \<le> length s"
proof (induction s arbitrary: p)
  case Nil
  then show ?case by (simp split: if_splits)
next
  case (Cons c cs)
  then show ?case by (auto dest: prefix_length_le split: if_splits)
qed

lemma indexOf_Some_split:
  assumes "indexOf s pat = Some p"
  shows "s = take p s @ pat @ drop (p + length pat) s"
proof -
  from indexOf_Some_prefix [OF assms] obtain zs where zs: "drop p s = pat @ zs"
    by (auto simp: prefix_def)
  then have "drop (p + length pat) s = zs"
    by (metis add.commute append_eq_conv_conj drop_drop)
  with zs show ?thesis
    by (metis append_take_drop_id)
qed

lemma sublist_indexOf: "sublist pat s \<Longrightarrow> \<exists>p. indexOf s pat = Some p"
proof (induction s)
  case Nil
  then show ?case by simp
next
  case (Cons c cs)
  then show ?case by (auto simp: sublist_Cons_right)
qed

text \<open>
  A replacement text is inserted as it is unless a \<^verbatim>\<open>$\<close> in it is followed by one of
  \<^verbatim>\<open>$\<close>, \<^verbatim>\<open>&\<close>, a backtick or an apostrophe.
\<close>

lemma get_substitution_id:
  assumes "\<not> sublist ''$$'' r" and "\<not> sublist ''$&'' r"
    and "\<not> sublist [CHR ''$'', CHR 0x60] r" and "\<not> sublist [CHR ''$'', CHR 0x27] r"
  shows "get_substitution m a b r = r"
  using assms
proof (induction m a b r rule: get_substitution.induct)
  case (3 matched pre post c d ds)
  have first: "\<not> (c = CHR ''$'' \<and> d \<in> {CHR ''$'', CHR ''&'', CHR 0x60, CHR 0x27})"
    using "3.prems" by (auto simp: sublist_Cons_right)
  have rest: "\<not> sublist p (d # ds)" if "\<not> sublist p (c # d # ds)" for p
    using that by (simp add: sublist_Cons_right)
  have "get_substitution matched pre post (d # ds) = d # ds"
    using first "3.prems" by (intro "3.IH"(5) rest) auto
  with first show ?case by auto
qed simp_all

lemma js_replace_split:
  assumes "sublist pat s"
    and "\<not> sublist ''$$'' r" and "\<not> sublist ''$&'' r"
    and "\<not> sublist [CHR ''$'', CHR 0x60] r" and "\<not> sublist [CHR ''$'', CHR 0x27] r"
  shows "\<exists>a c. s = a @ pat @ c \<and> js_replace s pat r = a @ r @ c"
proof -
  from sublist_indexOf [OF assms(1)] obtain p where p: "indexOf s pat = Some p" by blast
  have "s = take p s @ pat @ drop (p + length pat) s"
    by (rule indexOf_Some_split [OF p])
  moreover have "js_replace s pat r = take p s @ r @ drop (p + length pat) s"
    by (simp add: js_replace_def p get_substitution_id [OF assms(2-5)])
  ultimately show ?thesis by blast
qed

lemma digit_char_cases:
  "d < 10 \<Longrightarrow> digit_char d \<in> set ''0123456789''"
  unfolding digit_char_def by (rule nth_mem) simp

lemma string_of_nat_digits: "set (string_of_nat n) \<subseteq> set ''0123456789''"
proof (induction n rule: string_of_nat.induct)
  case (1 n)
  show ?case
  proof (cases "n < 10")
    case True
    then show ?thesis
      using digit_char_cases [of n] by (subst string_of_nat.simps) simp
  next
    case False
    have "n mod 10 < 10" by simp
    from digit_char_cases [OF this] 1 [OF False] False show ?thesis
      by (subst string_of_nat.simps) simp
  qed
qed

lemma digit_char_inj: "a < 10 \<Longrightarrow> b < 10 \<Longrightarrow> digit_char a = digit_char b \<Longrightarrow> a = b"
  unfolding digit_char_def
  by (subst (asm) nth_eq_iff_index_eq) simp_all

lemma string_of_nat_nonempty: "string_of_nat n \<noteq> []"
  by (subst string_of_nat.simps) simp

lemma string_of_nat_inj: "string_of_nat a = string_of_nat b \<Longrightarrow> a = b"
proof (induction a arbitrary: b rule: string_of_nat.induct)
  case (1 n)
  show ?case
  proof (cases "n < 10")
    case True
    then have n: "string_of_nat n = [digit_char n]"
      by (subst string_of_nat.simps) simp
    show ?thesis
    proof (cases "b < 10")
      case b: True
      then have "string_of_nat b = [digit_char b]"
        by (subst string_of_nat.simps) simp
      with n "1.prems" True b show ?thesis
        by (auto dest: digit_char_inj)
    next
      case b: False
      then have "string_of_nat b = string_of_nat (b div 10) @ [digit_char (b mod 10)]"
        by (subst string_of_nat.simps) simp
      with n "1.prems" string_of_nat_nonempty [of "b div 10"] show ?thesis
        by simp
    qed
  next
    case False
    then have n: "string_of_nat n = string_of_nat (n div 10) @ [digit_char (n mod 10)]"
      by (subst string_of_nat.simps) simp
    show ?thesis
    proof (cases "b < 10")
      case b: True
      then have "string_of_nat b = [digit_char b]"
        by (subst string_of_nat.simps) simp
      with n "1.prems" string_of_nat_nonempty [of "n div 10"] show ?thesis
        by simp
    next
      case b: False
      then have "string_of_nat b = string_of_nat (b div 10) @ [digit_char (b mod 10)]"
        by (subst string_of_nat.simps) simp
      with n "1.prems" have "string_of_nat (n div 10) = string_of_nat (b div 10)"
        and "digit_char (n mod 10) = digit_char (b mod 10)"
        by simp_all
      then have "n div 10 = b div 10" and "n mod 10 = b mod 10"
        using "1.IH" [OF False, of "b div 10"] digit_char_inj [of "n mod 10" "b mod 10"]
        by simp_all
      then show ?thesis
        by (metis div_mult_mod_eq)
    qed
  qed
qed

lemma placeholder_inj: "placeholder i = placeholder j \<Longrightarrow> i = j"
  by (simp add: placeholder_def string_of_nat_inj)

lemma placeholder_shape:
  "\<exists>body. placeholder i = CHR ''['' # body @ '']''
     \<and> CHR ''['' \<notin> set body \<and> CHR '']'' \<notin> set body"
proof -
  have "CHR ''['' \<notin> set (string_of_nat i)" "CHR '']'' \<notin> set (string_of_nat i)"
    using string_of_nat_digits [of i] by auto
  then show ?thesis
    by (intro exI [of _ "''CODE_BLOCK_'' @ string_of_nat i"]) (simp add: placeholder_def)
qed

lemma placeholder_chars:
  "CHR 0x60 \<notin> set (placeholder i)" "\<not> is_js_space (hd (placeholder i))"
  "\<not> is_js_space (last (placeholder i))" "placeholder i \<noteq> []"
  using string_of_nat_digits [of i]
  by (auto simp: placeholder_def is_js_space_def)

text \<open>
  Two strings of the shape \<open>l \<dots> r\<close>, with \<open>l\<close> and \<open>r\<close> nowhere inside, do not overlap unless
  they are equal. Placeholders have this shape, and so replacing one of them leaves the
  occurrences of the others in place.
\<close>

lemma only_head:
  assumes "l # b = u @ l # w" and "l \<notin> set b"
  shows "u = []"
  using assms by (cases u) auto

lemma only_last:
  assumes "b @ [r] = w @ r # v" and "r \<notin> set b"
  shows "v = []"
proof (rule ccontr)
  assume "v \<noteq> []"
  then obtain v' z where "v = v' @ [z]"
    by (metis append_butlast_last_id)
  with assms(1) have "b = w @ r # v'"
    by (metis append.assoc append_Cons butlast_snoc)
  with assms(2) show False by simp
qed

lemma bracketed_sublist_eq:
  assumes x: "x = l # bx @ [r]" "l \<notin> set bx" "r \<notin> set bx"
    and P: "P = l # bp @ [r]" "l \<notin> set bp" "r \<notin> set bp"
    and lr: "l \<noteq> r"
    and sub: "sublist P x"
  shows "x = P"
proof -
  from sub obtain u v where uv: "x = u @ P @ v"
    by (auto simp: sublist_def)
  have "l # (bx @ [r]) = u @ l # (bp @ [r] @ v)"
    using uv x(1) P(1) by simp
  moreover have "l \<notin> set (bx @ [r])" using x(2) lr by simp
  ultimately have u: "u = []" by (rule only_head)
  with uv x(1) P(1) have "bx @ [r] = bp @ r # v" by simp
  from only_last [OF this x(3)] have "v = []" .
  with u uv show ?thesis by simp
qed

lemma bracketed_no_overlap:
  assumes x: "x = l # bx @ [r]" "l \<notin> set bx" "r \<notin> set bx"
    and P: "P = l # bp @ [r]" "l \<notin> set bp" "r \<notin> set bp"
    and lr: "l \<noteq> r"
    and ne: "x \<noteq> P"
    and sub: "sublist x (a @ P @ c)"
  shows "sublist x a \<or> sublist x c"
proof -
  have PX: "\<not> sublist P x"
    using bracketed_sublist_eq [OF x P lr] ne by blast
  have XP: "\<not> sublist x P"
    using bracketed_sublist_eq [OF P x lr] ne by blast
  from sub consider (A) "sublist x a" | (B) "sublist x (P @ c)"
    | (C) x1 x2 where "x = x1 @ x2" "suffix x1 a" "prefix x2 (P @ c)"
    by (auto simp: sublist_append)
  then show ?thesis
  proof cases
    case A
    then show ?thesis by simp
  next
    case B
    then consider (B1) "sublist x P" | (B2) "sublist x c"
      | (B3) x1 x2 where "x = x1 @ x2" "suffix x1 P" "prefix x2 c"
      by (auto simp: sublist_append)
    then show ?thesis
    proof cases
      case B1
      with XP show ?thesis by simp
    next
      case B2
      then show ?thesis by simp
    next
      case B3
      show ?thesis
      proof (cases "x1 = []")
        case True
        with B3 show ?thesis by auto
      next
        case False
        with B3(1) x(1) obtain t where x1: "x1 = l # t"
          by (cases x1) auto
        from B3(2) obtain u where "P = u @ x1"
          by (auto simp: suffix_def)
        with x1 P(1) have "l # (bp @ [r]) = u @ l # t" by simp
        moreover have "l \<notin> set (bp @ [r])" using P(2) lr by simp
        ultimately have "u = []" by (rule only_head)
        with \<open>P = u @ x1\<close> B3(1) have "sublist P x" by simp
        with PX show ?thesis by simp
      qed
    qed
  next
    case C
    show ?thesis
    proof (cases "x2 = []")
      case True
      with C show ?thesis by (auto intro: suffix_imp_sublist)
    next
      case False
      from C(3) consider (C1) "prefix x2 P" | (C2) us where "x2 = P @ us"
        by (auto simp: prefix_append)
      then show ?thesis
      proof cases
        case C1
        then obtain w where w: "P = x2 @ w"
          by (auto simp: prefix_def)
        from False C(1) x(1) obtain t where x2: "x2 = t @ [r]"
          by (metis append_butlast_last_id last_appendR last_snoc append_Cons)
        from w x2 P(1) have "bp @ [r] = tl t @ r # w \<or> (t = [] \<and> l = r)"
          by (cases t) auto
        with lr have "bp @ [r] = tl t @ r # w" by simp
        from only_last [OF this P(3)] have "w = []" .
        with w C(1) have "sublist P x" by simp
        with PX show ?thesis by simp
      next
        case C2
        with C(1) have "sublist P x" by (auto simp: sublist_def)
        with PX show ?thesis by simp
      qed
    qed
  qed
qed

lemma fenced_no_overlap:
  assumes ne: "x \<noteq> []" and h: "hd x \<notin> set P" and l: "last x \<notin> set P"
    and PX: "\<not> sublist P x"
    and sub: "sublist x (a @ P @ c)"
  shows "sublist x a \<or> sublist x c"
proof -
  from sub consider (A) "sublist x a" | (B) "sublist x (P @ c)"
    | (C) x1 x2 where "x = x1 @ x2" "suffix x1 a" "prefix x2 (P @ c)"
    by (auto simp: sublist_append)
  then show ?thesis
  proof cases
    case A
    then show ?thesis by simp
  next
    case B
    then consider (B1) "sublist x P" | (B2) "sublist x c"
      | (B3) x1 x2 where "x = x1 @ x2" "suffix x1 P" "prefix x2 c"
      by (auto simp: sublist_append)
    then show ?thesis
    proof cases
      case B1
      then have "hd x \<in> set P"
        using ne set_mono_sublist [of x P] by auto
      with h show ?thesis by simp
    next
      case B2
      then show ?thesis by simp
    next
      case B3
      show ?thesis
      proof (cases "x1 = []")
        case True
        with B3 show ?thesis by auto
      next
        case False
        then have "hd x \<in> set x1" using B3(1) by simp
        with B3(2) have "hd x \<in> set P"
          using set_mono_suffix by blast
        with h show ?thesis by simp
      qed
    qed
  next
    case C
    show ?thesis
    proof (cases "x2 = []")
      case True
      with C show ?thesis by (auto intro: suffix_imp_sublist)
    next
      case False
      from C(3) consider (C1) "prefix x2 P" | (C2) us where "x2 = P @ us"
        by (auto simp: prefix_append)
      then show ?thesis
      proof cases
        case C1
        from False have "last x \<in> set x2" using C(1) by simp
        with C1 have "last x \<in> set P"
          using set_mono_prefix by blast
        with l show ?thesis by simp
      next
        case C2
        with C(1) have "sublist P x" by (auto simp: sublist_def)
        with PX show ?thesis by simp
      qed
    qed
  qed
qed

lemma sublist_replace_middle:
  "sublist x a \<or> sublist x c \<Longrightarrow> sublist x (a @ r @ c)"
  by (auto simp: sublist_append)

lemma extract_from_fenced:
  "b \<in> set (fst (extract_from n s)) \<Longrightarrow> b \<noteq> [] \<and> hd b = CHR 0x60 \<and> last b = CHR 0x60"
proof (induction n s rule: extract_from.induct)
  case (1 n s)
  show ?case
  proof (cases "indexOf s fence")
    case None
    with "1.prems" show ?thesis
      by (subst (asm) extract_from.simps) simp
  next
    case (Some p)
    show ?thesis
    proof (cases "indexOf (drop (p + 3) s) fence")
      case None
      with Some "1.prems" show ?thesis
        by (subst (asm) extract_from.simps) simp
    next
      case q: (Some q)
      from indexOf_Some_prefix [OF Some] obtain z where z: "drop p s = fence @ z"
        by (auto simp: prefix_def)
      then have z3: "drop (p + 3) s = z"
        by (metis add.commute append_eq_conv_conj drop_drop fence_def length_Cons list.size(3)
              numeral_3_eq_3)
      from indexOf_Some_prefix [OF q] z3 obtain z' where z': "drop q z = fence @ z'"
        by (auto simp: prefix_def)
      from indexOf_Some_le [OF q] z3 have qz: "q + 3 \<le> length z"
        by (simp add: fence_def)
      have "take (length fence + (q + 3)) (fence @ z) = fence @ take (q + 3) z"
        by simp
      then have "take (q + 6) (drop p s) = fence @ take (q + 3) z"
        by (simp add: z fence_def add.commute)
      also have "take (q + 3) z = take q z @ take 3 (drop q z)"
        by (simp add: take_add)
      also have "take 3 (drop q z) = fence"
        by (simp add: z' fence_def)
      finally have block: "take (q + 6) (drop p s) = fence @ take q z @ fence" .
      obtain code rest where rec: "extract_from (Suc n) (drop (p + q + 6) s) = (code, rest)"
        by (cases "extract_from (Suc n) (drop (p + q + 6) s)")
      from "1.prems" Some q rec
      have "b = take (q + 6) (drop p s) \<or> b \<in> set code"
        by (subst (asm) extract_from.simps) auto
      then show ?thesis
      proof
        assume "b = take (q + 6) (drop p s)"
        with block show ?thesis by (simp add: fence_def)
      next
        assume "b \<in> set code"
        with rec have "b \<in> set (fst (extract_from (Suc n) (drop (p + q + 6) s)))" by simp
        from "1.IH" [OF Some q this] show ?thesis .
      qed
    qed
  qed
qed

lemma dropWhile_keep:
  "x \<noteq> [] \<Longrightarrow> \<not> Q (hd x) \<Longrightarrow> dropWhile Q (u @ x @ v) = dropWhile Q u @ x @ v"
  by (induction u) (auto simp: neq_Nil_conv)

lemma sublist_trim:
  assumes "sublist x s" and "x \<noteq> []" and "\<not> is_js_space (hd x)" and "\<not> is_js_space (last x)"
  shows "sublist x (trim s)"
proof -
  from assms(1) obtain u v where s: "s = u @ x @ v"
    by (auto simp: sublist_def)
  define u' where "u' = dropWhile is_js_space u"
  have "dropWhile is_js_space s = u' @ x @ v"
    unfolding s u'_def by (rule dropWhile_keep [where Q = is_js_space, OF assms(2,3)])
  then have "rev (dropWhile is_js_space s) = rev v @ rev x @ rev u'"
    by simp
  moreover have "dropWhile is_js_space (rev v @ rev x @ rev u')
      = dropWhile is_js_space (rev v) @ rev x @ rev u'"
    using assms(2,4) by (intro dropWhile_keep) (simp_all add: hd_rev)
  ultimately have "trim s = u' @ x @ rev (dropWhile is_js_space (rev v))"
    by (simp add: trim_def)
  then show ?thesis by simp
qed

text \<open>
  The invariant of the restoring loop. The blocks restored so far (\<open>X\<close>) occur in the
  current text and hold none of the placeholders still to be replaced; the placeholders
  still to be replaced occur in it too.
\<close>

lemma restore_keeps:
  assumes "\<forall>k<length code. sublist (placeholder (n + k)) s"
    and "\<forall>b\<in>set code. \<not> sublist ''$$'' b \<and> \<not> sublist ''$&'' b
           \<and> \<not> sublist [CHR ''$'', CHR 0x60] b \<and> \<not> sublist [CHR ''$'', CHR 0x27] b
           \<and> b \<noteq> [] \<and> hd b = CHR 0x60 \<and> last b = CHR 0x60"
    and "\<forall>j<length code. \<forall>k<length code. j < k \<longrightarrow>
           \<not> sublist (placeholder (n + k)) (code ! j)"
    and "\<forall>x\<in>X. sublist x s \<and> x \<noteq> [] \<and> hd x = CHR 0x60 \<and> last x = CHR 0x60
           \<and> (\<forall>k<length code. \<not> sublist (placeholder (n + k)) x)"
  shows "\<forall>x\<in>X \<union> set code.
           sublist x (foldl (\<lambda>result (i, block). js_replace result (placeholder i) block) s
                        (enumerate n code))"
  using assms
proof (induction code arbitrary: n s X)
  case Nil
  then show ?case by simp
next
  case (Cons b bs)
  let ?f = "\<lambda>result (i, block). js_replace result (placeholder i) block"
  let ?P = "placeholder n"
  have P0: "sublist ?P s"
    using Cons.prems(1) by force
  have b: "\<not> sublist ''$$'' b" "\<not> sublist ''$&'' b"
      "\<not> sublist [CHR ''$'', CHR 0x60] b" "\<not> sublist [CHR ''$'', CHR 0x27] b"
      "b \<noteq> []" "hd b = CHR 0x60" "last b = CHR 0x60"
    using Cons.prems(2) by simp_all
  from js_replace_split [OF P0 b(1-4)] obtain a c
    where s: "s = a @ ?P @ c" and s': "js_replace s ?P b = a @ b @ c"
    by blast
  define s1 where "s1 = a @ b @ c"
  have keep_placeholders: "sublist (placeholder (Suc n + k)) s1" if "k < length bs" for k
  proof -
    have "sublist (placeholder (n + Suc k)) s"
      using Cons.prems(1) that by (metis Suc_less_eq length_Cons)
    then have sub: "sublist (placeholder (Suc n + k)) (a @ ?P @ c)"
      using s by simp
    obtain bx where bx: "placeholder (Suc n + k) = CHR ''['' # bx @ '']''"
        "CHR ''['' \<notin> set bx" "CHR '']'' \<notin> set bx"
      using placeholder_shape [of "Suc n + k"] by blast
    obtain bp where bp: "?P = CHR ''['' # bp @ '']''"
        "CHR ''['' \<notin> set bp" "CHR '']'' \<notin> set bp"
      using placeholder_shape [of n] by blast
    have "placeholder (Suc n + k) \<noteq> ?P"
      using placeholder_inj [of "Suc n + k" n] by auto
    from bracketed_no_overlap [OF bx bp _ this sub]
    have "sublist (placeholder (Suc n + k)) a \<or> sublist (placeholder (Suc n + k)) c"
      by simp
    then show ?thesis
      unfolding s1_def by (rule sublist_replace_middle)
  qed
  have keep_fenced: "sublist x s1"
    if "sublist x s" "x \<noteq> []" "hd x = CHR 0x60" "last x = CHR 0x60" "\<not> sublist ?P x" for x
  proof -
    have "hd x \<notin> set ?P" "last x \<notin> set ?P"
      using that(3,4) placeholder_chars(1) [of n] by simp_all
    from fenced_no_overlap [OF that(2) this that(5)] that(1) s
    have "sublist x a \<or> sublist x c" by simp
    then show ?thesis
      unfolding s1_def by (rule sublist_replace_middle)
  qed
  have 1: "\<forall>k<length bs. sublist (placeholder (Suc n + k)) s1"
    using keep_placeholders by blast
  have 2: "\<forall>b\<in>set bs. \<not> sublist ''$$'' b \<and> \<not> sublist ''$&'' b
           \<and> \<not> sublist [CHR ''$'', CHR 0x60] b \<and> \<not> sublist [CHR ''$'', CHR 0x27] b
           \<and> b \<noteq> [] \<and> hd b = CHR 0x60 \<and> last b = CHR 0x60"
    using Cons.prems(2) by simp
  have later: "\<not> sublist (placeholder (n + k)) ((b # bs) ! j)"
    if "j < k" "k < Suc (length bs)" for j k
    using Cons.prems(3) that by simp
  have 3: "\<forall>j<length bs. \<forall>k<length bs. j < k \<longrightarrow>
             \<not> sublist (placeholder (Suc n + k)) (bs ! j)"
  proof (intro allI impI)
    fix j k assume "j < length bs" "k < length bs" "j < k"
    then show "\<not> sublist (placeholder (Suc n + k)) (bs ! j)"
      using later [of "Suc j" "Suc k"] by simp
  qed
  have fresh: "\<not> sublist (placeholder (Suc n + k)) b" if "k < length bs" for k
    using later [of 0 "Suc k"] that by simp
  have 4: "\<forall>x\<in>insert b X. sublist x s1 \<and> x \<noteq> [] \<and> hd x = CHR 0x60 \<and> last x = CHR 0x60
           \<and> (\<forall>k<length bs. \<not> sublist (placeholder (Suc n + k)) x)"
  proof
    fix x assume "x \<in> insert b X"
    then consider "x = b" | "x \<in> X" by blast
    then show "sublist x s1 \<and> x \<noteq> [] \<and> hd x = CHR 0x60 \<and> last x = CHR 0x60
           \<and> (\<forall>k<length bs. \<not> sublist (placeholder (Suc n + k)) x)"
    proof cases
      case 1
      with b fresh show ?thesis
        by (simp add: s1_def)
    next
      case 2
      with Cons.prems(4) have x: "sublist x s" "x \<noteq> []" "hd x = CHR 0x60" "last x = CHR 0x60"
        and np: "\<forall>k<length (b # bs). \<not> sublist (placeholder (n + k)) x"
        by simp_all
      from np have "\<not> sublist ?P x" by force
      moreover have "\<not> sublist (placeholder (Suc n + k)) x" if "k < length bs" for k
        using np that by (metis Suc_less_eq add_Suc_shift length_Cons)
      ultimately show ?thesis
        using keep_fenced [of x] x by simp
    qed
  qed
  from Cons.IH [OF 1 2 3 4]
  have "\<forall>x\<in>insert b X \<union> set bs. sublist x (foldl ?f s1 (enumerate (Suc n) bs))" .
  then show ?case
    by (simp add: s' s1_def)
qed

lemma restoreCodeBlocks_keeps:
  assumes "\<forall>k<length code. sublist (placeholder k) s"
    and "\<forall>b\<in>set code. \<not> sublist ''$$'' b \<and> \<not> sublist ''$&'' b
           \<and> \<not> sublist [CHR ''$'', CHR 0x60] b \<and> \<not> sublist [CHR ''$'', CHR 0x27] b
           \<and> b \<noteq> [] \<and> hd b = CHR 0x60 \<and> last b = CHR 0x60"
    and "\<forall>j<length code. \<forall>k<length code. j < k \<longrightarrow> \<not> sublist (placeholder k) (code ! j)"
  shows "\<forall>b\<in>set code. sublist b (restoreCodeBlocks s code)"
  using restore_keeps [of code 0 s "{}"] assms
  by (simp add: restoreCodeBlocks_def)

text \<open>
  The \<^verbatim>\<open>$\<close> patterns of \<^verbatim>\<open>String.prototype.replace\<close> act on the restored block: a block
  that holds \<^verbatim>\<open>$&\<close> comes back with the placeholder in its place. Any other use of
  \<^verbatim>\<open>$\<close> is restored as it is.
\<close>

lemma restoreCodeBlocks_dollar_pattern:
  "restoreCodeBlocks ''Keep [CODE_BLOCK_0]'' [fence @ ''echo $&'' @ fence]
     = ''Keep '' @ fence @ ''echo [CODE_BLOCK_0]'' @ fence"
  "restoreCodeBlocks ''Keep [CODE_BLOCK_0]'' [fence @ ''echo $HOME $1 ${x}'' @ fence]
     = ''Keep '' @ fence @ ''echo $HOME $1 ${x}'' @ fence"
  by code_simp+

text \<open>
  C2 (amended). With \<open>preserveCode\<close> in force and a text long enough to be summarized:
  if the response of the service contains the placeholder of every extracted block, no
  block contains one of the four patterns \<^verbatim>\<open>$$\<close>, \<^verbatim>\<open>$&\<close>, \<^verbatim>\<open>$`\<close> and \<^verbatim>\<open>$'\<close>, and no
  block contains the placeholder text of a later block, then every fenced code block of
  the input occurs verbatim in the summary.
\<close>

theorem summarize_preserves_code:
  assumes "effective_maxLength options < estimateTokens text"
    and "effective_preserveCode options"
    and "ollama (summarize_prompt (effective_maxLength options) (snd (extractCodeBlocks text)))
         = Inr response"
    and "\<forall>k<length (fst (extractCodeBlocks text)). sublist (placeholder k) response"
    and "\<forall>b\<in>set (fst (extractCodeBlocks text)).
           \<not> sublist ''$$'' b \<and> \<not> sublist ''$&'' b
           \<and> \<not> sublist [CHR ''$'', CHR 0x60] b \<and> \<not> sublist [CHR ''$'', CHR 0x27] b"
    and "\<forall>j<length (fst (extractCodeBlocks text)).
           \<forall>k<length (fst (extractCodeBlocks text)). j < k \<longrightarrow>
             \<not> sublist (placeholder k) (fst (extractCodeBlocks text) ! j)"
  shows "\<forall>b\<in>set (fst (extractCodeBlocks text)).
           sublist b (summary (summarize ollama text options))"
proof (cases "fst (extractCodeBlocks text) = []")
  case True
  then show ?thesis by simp
next
  case False
  define code where "code = fst (extractCodeBlocks text)"
  have eq: "summary (summarize ollama text options) = restoreCodeBlocks (trim response) code"
    using summarize_success_eq [of options "text" ollama response] assms(1,2,3) False
    by (simp add: Let_def code_def)
  have 1: "\<forall>k<length code. sublist (placeholder k) (trim response)"
    using assms(4) placeholder_chars
    by (auto simp: code_def intro!: sublist_trim)
  have 2: "\<forall>b\<in>set code. \<not> sublist ''$$'' b \<and> \<not> sublist ''$&'' b
           \<and> \<not> sublist [CHR ''$'', CHR 0x60] b \<and> \<not> sublist [CHR ''$'', CHR 0x27] b
           \<and> b \<noteq> [] \<and> hd b = CHR 0x60 \<and> last b = CHR 0x60"
    using assms(5) extract_from_fenced [of _ 0 "text"]
    by (simp add: code_def extractCodeBlocks_def)
  have 3: "\<forall>j<length code. \<forall>k<length code. j < k \<longrightarrow> \<not> sublist (placeholder k) (code ! j)"
    using assms(6) by (simp add: code_def)
  from restoreCodeBlocks_keeps [OF 1 2 3] show ?thesis
    by (simp add: eq code_def)
qed

text \<open>
  A run with two blocks. The first holds \<^verbatim>\<open>$HOME\<close> and the text of its own placeholder,
  the second \<^verbatim>\<open>$1\<close> and the text of the first block's placeholder; the response names the
  placeholders in the opposite order. Both blocks come back verbatim.
\<close>

theorem summarize_preserves_code_witness:
  "effective_maxLength \<lparr>maxLength = Some 1, preserveCode = None, format = None\<rparr>
     < estimateTokens
         (''Run '' @ fence @ ''a=$HOME [CODE_BLOCK_0]'' @ fence @ '' then ''
          @ fence @ ''b[0] $1 [CODE_BLOCK_0]'' @ fence @ '' now'')
   \<and> effective_preserveCode \<lparr>maxLength = Some 1, preserveCode = None, format = None\<rparr>
   \<and> fst (extractCodeBlocks
         (''Run '' @ fence @ ''a=$HOME [CODE_BLOCK_0]'' @ fence @ '' then ''
          @ fence @ ''b[0] $1 [CODE_BLOCK_0]'' @ fence @ '' now''))
       = [fence @ ''a=$HOME [CODE_BLOCK_0]'' @ fence, fence @ ''b[0] $1 [CODE_BLOCK_0]'' @ fence]
   \<and> sublist (fence @ ''a=$HOME [CODE_BLOCK_0]'' @ fence)
        (summary (summarize (fixed_response ''First [CODE_BLOCK_1] and [CODE_BLOCK_0] done'')
           (''Run '' @ fence @ ''a=$HOME [CODE_BLOCK_0]'' @ fence @ '' then ''
            @ fence @ ''b[0] $1 [CODE_BLOCK_0]'' @ fence @ '' now'')
           \<lparr>maxLength = Some 1, preserveCode = None, format = None\<rparr>))
   \<and> sublist (fence @ ''b[0] $1 [CODE_BLOCK_0]'' @ fence)
        (summary (summarize (fixed_response ''First [CODE_BLOCK_1] and [CODE_BLOCK_0] done'')
           (''Run '' @ fence @ ''a=$HOME [CODE_BLOCK_0]'' @ fence @ '' then ''
            @ fence @ ''b[0] $1 [CODE_BLOCK_0]'' @ fence @ '' now'')
           \<lparr>maxLength = Some 1, preserveCode = None, format = None\<rparr>))"
proof -
  define opts where "opts = \<lparr>maxLength = Some 1, preserveCode = None, format = None\<rparr>"
  define b0 where "b0 = fence @ ''a=$HOME [CODE_BLOCK_0]'' @ fence"
  define b1 where "b1 = fence @ ''b[0] $1 [CODE_BLOCK_0]'' @ fence"
  define input where
    "input = ''Run '' @ fence @ ''a=$HOME [CODE_BLOCK_0]'' @ fence @ '' then ''
             @ fence @ ''b[0] $1 [CODE_BLOCK_0]'' @ fence @ '' now''"
  define response where "response = ''First [CODE_BLOCK_1] and [CODE_BLOCK_0] done''"
  have above: "effective_maxLength opts < estimateTokens input"
    by (simp add: opts_def input_def effective_maxLength_def estimateTokens_div fence_def)
  have preserve: "effective_preserveCode opts"
    by (simp add: opts_def effective_preserveCode_def)
  have blocks: "extractCodeBlocks input
      = ([b0, b1], ''Run [CODE_BLOCK_0] then [CODE_BLOCK_1] now'')"
    unfolding input_def b0_def b1_def by code_simp
  have answered: "fixed_response response
      (summarize_prompt (effective_maxLength opts) (snd (extractCodeBlocks input)))
      = Inr response"
    by (simp add: fixed_response_def)
  have p0: "sublist (placeholder 0) response" unfolding response_def by code_simp
  have p1: "sublist (placeholder 1) response" unfolding response_def by code_simp
  have present: "\<forall>k<length (fst (extractCodeBlocks input)). sublist (placeholder k) response"
    using p0 p1 by (simp add: blocks less_Suc_eq)
  have d0: "\<not> sublist ''$$'' b0 \<and> \<not> sublist ''$&'' b0
      \<and> \<not> sublist [CHR ''$'', CHR 0x60] b0 \<and> \<not> sublist [CHR ''$'', CHR 0x27] b0"
    unfolding b0_def by code_simp
  have d1: "\<not> sublist ''$$'' b1 \<and> \<not> sublist ''$&'' b1
      \<and> \<not> sublist [CHR ''$'', CHR 0x60] b1 \<and> \<not> sublist [CHR ''$'', CHR 0x27] b1"
    unfolding b1_def by code_simp
  have no_pattern: "\<forall>b\<in>set (fst (extractCodeBlocks input)).
      \<not> sublist ''$$'' b \<and> \<not> sublist ''$&'' b
      \<and> \<not> sublist [CHR ''$'', CHR 0x60] b \<and> \<not> sublist [CHR ''$'', CHR 0x27] b"
    using d0 d1 by (simp add: blocks)
  have n10: "\<not> sublist (placeholder 1) b0" unfolding b0_def by code_simp
  have no_later: "\<forall>j<length (fst (extractCodeBlocks input)).
      \<forall>k<length (fst (extractCodeBlocks input)). j < k \<longrightarrow>
        \<not> sublist (placeholder k) (fst (extractCodeBlocks input) ! j)"
    using n10 by (simp add: blocks less_Suc_eq)
  have kept: "\<forall>b\<in>set (fst (extractCodeBlocks input)).
      sublist b (summary (summarize (fixed_response response) input opts))"
    by (rule summarize_preserves_code [of opts input "fixed_response response" response,
          OF above preserve answered present no_pattern no_later])
  have "effective_maxLength opts < estimateTokens input
      \<and> effective_preserveCode opts
      \<and> fst (extractCodeBlocks input) = [b0, b1]
      \<and> sublist b0 (summary (summarize (fixed_response response) input opts))
      \<and> sublist b1 (summary (summarize (fixed_response response) input opts))"
    using above preserve kept by (simp add: blocks)
  then show ?thesis
    unfolding opts_def input_def response_def b0_def b1_def .
qed

text \<open>
  C2, as stated, fails in two ways. The service may answer without the placeholder, and
  then nothing is restored: in the first run the input holds one fenced block and the
  response is a plain sentence. And the blocks are restored one after the other, each by
  replacing the first occurrence of its placeholder: in the second run the first block
  holds the text \<open>[CODE_BLOCK_1]\<close>, the second block is restored inside the first, and the
  first block is no longer in the summary.
\<close>

theorem summarize_drops_code_counterexample:
  "effective_maxLength \<lparr>maxLength = Some 1, preserveCode = Some True, format = None\<rparr>
     < estimateTokens (''Run '' @ fence @ ''a=1'' @ fence @ '' then stop'')
   \<and> effective_preserveCode \<lparr>maxLength = Some 1, preserveCode = Some True, format = None\<rparr>
   \<and> fst (extractCodeBlocks (''Run '' @ fence @ ''a=1'' @ fence @ '' then stop''))
       = [fence @ ''a=1'' @ fence]
   \<and> summary (summarize (fixed_response ''A short summary.'')
         (''Run '' @ fence @ ''a=1'' @ fence @ '' then stop'')
         \<lparr>maxLength = Some 1, preserveCode = Some True, format = None\<rparr>)
       = ''A short summary.''
   \<and> \<not> sublist (fence @ ''a=1'' @ fence)
         (summary (summarize (fixed_response ''A short summary.'')
            (''Run '' @ fence @ ''a=1'' @ fence @ '' then stop'')
            \<lparr>maxLength = Some 1, preserveCode = Some True, format = None\<rparr>))
   \<and> effective_maxLength \<lparr>maxLength = Some 1, preserveCode = Some True, format = None\<rparr>
       < estimateTokens (fence @ ''[CODE_BLOCK_1]'' @ fence @ '' and '' @ fence @ ''x'' @ fence)
   \<and> fst (extractCodeBlocks (fence @ ''[CODE_BLOCK_1]'' @ fence @ '' and '' @ fence @ ''x'' @ fence))
       = [fence @ ''[CODE_BLOCK_1]'' @ fence, fence @ ''x'' @ fence]
   \<and> summary (summarize (fixed_response ''[CODE_BLOCK_0] and [CODE_BLOCK_1]'')
         (fence @ ''[CODE_BLOCK_1]'' @ fence @ '' and '' @ fence @ ''x'' @ fence)
         \<lparr>maxLength = Some 1, preserveCode = Some True, format = None\<rparr>)
       = fence @ fence @ ''x'' @ fence @ fence @ '' and [CODE_BLOCK_1]''
   \<and> \<not> sublist (fence @ ''[CODE_BLOCK_1]'' @ fence)
         (summary (summarize (fixed_response ''[CODE_BLOCK_0] and [CODE_BLOCK_1]'')
            (fence @ ''[CODE_BLOCK_1]'' @ fence @ '' and '' @ fence @ ''x'' @ fence)
            \<lparr>maxLength = Some 1, preserveCode = Some True, format = None\<rparr>))"
proof -
  define opts where "opts = \<lparr>maxLength = Some 1, preserveCode = Some True, format = None\<rparr>"
  define input where "input = ''Run '' @ fence @ ''a=1'' @ fence @ '' then stop''"
  define nested where
    "nested = fence @ ''[CODE_BLOCK_1]'' @ fence @ '' and '' @ fence @ ''x'' @ fence"
  have above: "effective_maxLength opts < estimateTokens input"
    by (simp add: opts_def input_def effective_maxLength_def estimateTokens_div fence_def)
  have above': "effective_maxLength opts < estimateTokens nested"
    by (simp add: opts_def nested_def effective_maxLength_def estimateTokens_div fence_def)
  have preserve: "effective_preserveCode opts"
    by (simp add: opts_def effective_preserveCode_def)
  have blocks: "extractCodeBlocks input
      = ([fence @ ''a=1'' @ fence], ''Run [CODE_BLOCK_0] then stop'')"
    unfolding input_def by code_simp
  have blocks': "extractCodeBlocks nested
      = ([fence @ ''[CODE_BLOCK_1]'' @ fence, fence @ ''x'' @ fence],
         ''[CODE_BLOCK_0] and [CODE_BLOCK_1]'')"
    unfolding nested_def by code_simp
  have restored: "restoreCodeBlocks (trim ''A short summary.'') [fence @ ''a=1'' @ fence]
      = ''A short summary.''"
    by code_simp
  have restored': "restoreCodeBlocks (trim ''[CODE_BLOCK_0] and [CODE_BLOCK_1]'')
        [fence @ ''[CODE_BLOCK_1]'' @ fence, fence @ ''x'' @ fence]
      = fence @ fence @ ''x'' @ fence @ fence @ '' and [CODE_BLOCK_1]''"
    by code_simp
  have result: "summary (summarize (fixed_response ''A short summary.'') input opts)
      = ''A short summary.''"
    using summarize_success_eq [of opts input "fixed_response ''A short summary.''"
        "''A short summary.''", OF above] restored
    by (simp add: fixed_response_def preserve blocks Let_def)
  have result': "summary (summarize (fixed_response ''[CODE_BLOCK_0] and [CODE_BLOCK_1]'')
        nested opts)
      = fence @ fence @ ''x'' @ fence @ fence @ '' and [CODE_BLOCK_1]''"
    using summarize_success_eq [of opts nested
        "fixed_response ''[CODE_BLOCK_0] and [CODE_BLOCK_1]''"
        "''[CODE_BLOCK_0] and [CODE_BLOCK_1]''", OF above'] restored'
    by (simp add: fixed_response_def preserve blocks' Let_def)
  have absent: "\<not> sublist (fence @ ''a=1'' @ fence) ''A short summary.''"
    by code_simp
  have absent': "\<not> sublist (fence @ ''[CODE_BLOCK_1]'' @ fence)
      (fence @ fence @ ''x'' @ fence @ fence @ '' and [CODE_BLOCK_1]'')"
    by code_simp
  have "effective_maxLength opts < estimateTokens input
      \<and> effective_preserveCode opts
      \<and> fst (extractCodeBlocks input) = [fence @ ''a=1'' @ fence]
      \<and> summary (summarize (fixed_response ''A short summary.'') input opts)
          = ''A short summary.''
      \<and> \<not> sublist (fence @ ''a=1'' @ fence)
            (summary (summarize (fixed_response ''A short summary.'') input opts))
      \<and> effective_maxLength opts < estimateTokens nested
      \<and> fst (extractCodeBlocks nested)
          = [fence @ ''[CODE_BLOCK_1]'' @ fence, fence @ ''x'' @ fence]
      \<and> summary (summarize (fixed_response ''[CODE_BLOCK_0] and [CODE_BLOCK_1]'') nested opts)
          = fence @ fence @ ''x'' @ fence @ fence @ '' and [CODE_BLOCK_1]''
      \<and> \<not> sublist (fence @ ''[CODE_BLOCK_1]'' @ fence)
            (summary (summarize (fixed_response ''[CODE_BLOCK_0] and [CODE_BLOCK_1]'')
               nested opts))"
    using above above' preserve absent absent' by (simp add: blocks blocks' result result')
  then show ?thesis
    unfolding opts_def input_def nested_def .
qed

subsection \<open>Session compaction\<close>

lemma foldl_tokens_sum:
  "foldl (\<lambda>total m. total + tokens m) acc ms = acc + sum_list (map tokens ms)"
  by (induction ms arbitrary: acc) simp_all

lemma compressSession_noop:
  "length (messages session) \<le> keepRecentMessages config \<Longrightarrow>
   compressSession env session config = session"
  by (simp add: compressSession_def)

lemma compressSession_folds:
  assumes "keepRecentMessages config < length (messages session)"
  shows "messages (compressSession env session config)
           = drop (length (messages session) - keepRecentMessages config) (messages session)"
    and "totalTokens (compressSession env session config)
           = session_summaryTokens (compressSession env session config)
             + sum_list (map tokens (messages (compressSession env session config)))"
    and "session_summaryTokens (compressSession env session config)
           = estimateTokens (session_summary (compressSession env session config))"
    and "messageCount (compressSession env session config) = messageCount session"
  using assms by (auto simp: compressSession_def Let_def foldl_tokens_sum)

text \<open>
  C3. \<open>compressSession\<close> compares the number of messages that the session holds,
  \<^verbatim>\<open>session.messages.length\<close>, with \<open>keepRecentMessages\<close>. When that number is at most
  \<open>keepRecentMessages\<close> the session is returned unchanged. When it is larger, the last
  \<open>keepRecentMessages\<close> messages are kept verbatim, which is
  \<open>min(keepRecentMessages, previous number of messages)\<close> of them, and \<open>totalTokens\<close> becomes
  the new \<open>summaryTokens\<close> plus the sum of the kept messages' token counts. The counter
  field \<open>messageCount\<close> is neither read nor changed by the compaction; whenever it is at
  least the number of messages held, as it is in every session that \<open>addMessage\<close> builds,
  the two statements hold for the counter as well.
\<close>

theorem compressSession_compaction:
  "(length (messages session) \<le> keepRecentMessages config \<longrightarrow>
      compressSession env session config = session)
   \<and> (keepRecentMessages config < length (messages session) \<longrightarrow>
        messages (compressSession env session config)
          = drop (length (messages session) - keepRecentMessages config) (messages session)
        \<and> length (messages (compressSession env session config))
            = min (keepRecentMessages config) (length (messages session))
        \<and> totalTokens (compressSession env session config)
            = session_summaryTokens (compressSession env session config)
              + sum_list (map tokens (messages (compressSession env session config)))
        \<and> session_summaryTokens (compressSession env session config)
            = estimateTokens (session_summary (compressSession env session config))
        \<and> messageCount (compressSession env session config) = messageCount session)
   \<and> (int (length (messages session)) \<le> messageCount session \<longrightarrow>
        (messageCount session \<le> int (keepRecentMessages config) \<longrightarrow>
           compressSession env session config = session)
        \<and> (keepRecentMessages config < length (messages session) \<longrightarrow>
             int (length (messages (compressSession env session config)))
               = min (int (keepRecentMessages config)) (messageCount session)))"
proof (intro conjI impI)
  assume "length (messages session) \<le> keepRecentMessages config"
  then show "compressSession env session config = session"
    by (rule compressSession_noop)
next
  assume more: "keepRecentMessages config < length (messages session)"
  show "messages (compressSession env session config)
      = drop (length (messages session) - keepRecentMessages config) (messages session)"
    by (rule compressSession_folds(1) [OF more])
  then show "length (messages (compressSession env session config))
      = min (keepRecentMessages config) (length (messages session))"
    using more by simp
  show "totalTokens (compressSession env session config)
      = session_summaryTokens (compressSession env session config)
        + sum_list (map tokens (messages (compressSession env session config)))"
    by (rule compressSession_folds(2) [OF more])
  show "session_summaryTokens (compressSession env session config)
      = estimateTokens (session_summary (compressSession env session config))"
    by (rule compressSession_folds(3) [OF more])
  show "messageCount (compressSession env session config) = messageCount session"
    by (rule compressSession_folds(4) [OF more])
next
  assume "int (length (messages session)) \<le> messageCount session"
    and "messageCount session \<le> int (keepRecentMessages config)"
  then have "length (messages session) \<le> keepRecentMessages config" by linarith
  then show "compressSession env session config = session"
    by (rule compressSession_noop)
next
  assume count: "int (length (messages session)) \<le> messageCount session"
    and more: "keepRecentMessages config < length (messages session)"
  have "length (messages (compressSession env session config)) = keepRecentMessages config"
    using more by (simp add: compressSession_folds(1) [OF more])
  with count more show "int (length (messages (compressSession env session config)))
      = min (int (keepRecentMessages config)) (messageCount session)"
    by simp
qed

text \<open>\<open>addMessage\<close> keeps the counter at or above the number of messages held.\<close>

lemma addMessage_count:
  assumes "int (length (messages session)) \<le> messageCount session"
  shows "int (length (messages (addMessage env session r txt config)))
           \<le> messageCount (addMessage env session r txt config)"
proof -
  define updated where "updated = session
      \<lparr>messages := messages session
         @ [\<lparr>role = r, content = txt, tokens = estimateTokens txt, timestamp = clock env\<rparr>],
       totalTokens := totalTokens session + estimateTokens txt,
       messageCount := messageCount session + 1,
       updatedAt := clock env\<rparr>"
  have inv: "int (length (messages updated)) \<le> messageCount updated"
    using assms by (simp add: updated_def)
  have "int (length (messages (compressSession env updated cfg))) \<le> messageCount updated
      \<and> messageCount (compressSession env updated cfg) = messageCount updated" for cfg
  proof (cases "length (messages updated) \<le> keepRecentMessages cfg")
    case True
    with inv show ?thesis by (simp add: compressSession_noop)
  next
    case False
    then have more: "keepRecentMessages cfg < length (messages updated)" by simp
    show ?thesis
      using inv by (simp add: compressSession_folds(1,4) [OF more])
  qed
  with inv show ?thesis
    by (simp add: addMessage_def Let_def updated_def [symmetric])
qed

theorem compressSession_compaction_witness:
  "length (messages sample_session)
     \<le> keepRecentMessages \<lparr>cfg_maxTokens = 4, keepRecentMessages = 5, autoSave = False\<rparr>
   \<and> compressSession offline_env sample_session
         \<lparr>cfg_maxTokens = 4, keepRecentMessages = 5, autoSave = False\<rparr> = sample_session
   \<and> keepRecentMessages \<lparr>cfg_maxTokens = 4, keepRecentMessages = 2, autoSave = False\<rparr>
       < length (messages sample_session)
   \<and> length (messages (compressSession offline_env sample_session
         \<lparr>cfg_maxTokens = 4, keepRecentMessages = 2, autoSave = False\<rparr>)) = 2
   \<and> totalTokens (compressSession offline_env sample_session
         \<lparr>cfg_maxTokens = 4, keepRecentMessages = 2, autoSave = False\<rparr>)
       = session_summaryTokens (compressSession offline_env sample_session
           \<lparr>cfg_maxTokens = 4, keepRecentMessages = 2, autoSave = False\<rparr>) + 3
   \<and> int (length (messages sample_session)) \<le> messageCount sample_session
   \<and> messageCount sample_session
       \<le> int (keepRecentMessages \<lparr>cfg_maxTokens = 4, keepRecentMessages = 5, autoSave = False\<rparr>)"
  using
    compressSession_compaction [of sample_session
      "\<lparr>cfg_maxTokens = 4, keepRecentMessages = 5, autoSave = False\<rparr>" offline_env]
    compressSession_compaction [of sample_session
      "\<lparr>cfg_maxTokens = 4, keepRecentMessages = 2, autoSave = False\<rparr>" offline_env]
  by (simp add: sample_session_def)

subsection \<open>Retrieval under a token ceiling\<close>










subsection \<open>The reported search method\<close>

text \<open>
  C10. The \<open>searchMethod\<close> of the result of \<open>retrieve\<close> is \<open>vector\<close> when the cached
  provider flag is \<open>ollama\<close> and \<open>fts5\<close> otherwise, whatever the state of the vector table,
  the outcome of the searches and the origin of the returned items; it is never \<open>recency\<close>.
\<close>

theorem retrieve_searchMethod:
  "searchMethod (retrieve env st q options)
     = (if provider env = ProviderOllama then Vector else Fts5)
   \<and> searchMethod (retrieve env st q options) \<noteq> Recency"
  by (simp add: retrieve_def Let_def split: prod.splits)

text \<open>
  A run with the flag set to \<open>ollama\<close> in which no vector table exists, the search is the
  keyword search and finds nothing, and the only returned item comes from the backfill:
  the reported method is still \<open>vector\<close>.
\<close>

theorem retrieve_searchMethod_witness:
  "provider recency_only_store = ProviderOllama
   \<and> search recency_only_store \<lparr>initialized = False, lanceTable = False\<rparr> ''query'' None 10
       = (searchFTS recency_only_store ''query'' None 10,
          \<lparr>initialized = True, lanceTable = False\<rparr>)
   \<and> items (retrieve recency_only_store \<lparr>initialized = False, lanceTable = False\<rparr> ''query''
         \<lparr>ret_limit = None, ret_types = None, ret_includeRecent = None,
          ret_minScore = None, ret_maxTokens = None\<rparr>)
       = getRecent recency_only_store None 10
   \<and> searchMethod (retrieve recency_only_store \<lparr>initialized = False, lanceTable = False\<rparr>
         ''query''
         \<lparr>ret_limit = None, ret_types = None, ret_includeRecent = None,
          ret_minScore = None, ret_maxTokens = None\<rparr>) = Vector"
proof -
  have run: "retrieve recency_only_store \<lparr>initialized = False, lanceTable = False\<rparr> ''query''
       \<lparr>ret_limit = None, ret_types = None, ret_includeRecent = None,
        ret_minScore = None, ret_maxTokens = None\<rparr>
     = \<lparr>items = getRecent recency_only_store None 10, res_totalTokens = 3,
        searchMethod = Vector\<rparr>"
    by (simp add: retrieve_def candidates_def search_all_def search_def initVectorStore_def
          recency_only_store_def ranked_results_def recent_backfill_def
          retriever_estimateTokens_def)
  have flag: "provider recency_only_store = ProviderOllama"
    by (simp add: recency_only_store_def)
  have dispatch: "search recency_only_store \<lparr>initialized = False, lanceTable = False\<rparr>
        ''query'' None 10
      = (searchFTS recency_only_store ''query'' None 10,
         \<lparr>initialized = True, lanceTable = False\<rparr>)"
    by (simp add: search_def initVectorStore_def recency_only_store_def)
  show ?thesis
    using retrieve_searchMethod [of recency_only_store
        "\<lparr>initialized = False, lanceTable = False\<rparr>" "''query''"
        "\<lparr>ret_limit = None, ret_types = None, ret_includeRecent = None,
          ret_minScore = None, ret_maxTokens = None\<rparr>"]
      flag dispatch
    by (simp add: run)
qed

subsection \<open>The representation of a step output for a budget\<close>

lemma keyPointsStr_tokens: "0 < estimateTokens (keyPointsStr mem) \<longleftrightarrow> keyPoints mem \<noteq> []"
  by (simp add: estimateTokens_pos_iff keyPointsStr_def)

lemma truncation_target_range:
  assumes "0 \<le> tokenBudget" and "tokenBudget < st"
  shows "0 \<le> \<lfloor>js_times (js_times (of_nat n) (js_over (of_int tokenBudget) (of_int st)))
                 (to_double (9 / 10))\<rfloor>"
proof -
  have "0 \<le> js_over (of_int tokenBudget) (of_int st)"
    using assms by (intro js_over_nonneg) simp_all
  then have "0 \<le> js_times (of_nat n) (js_over (of_int tokenBudget) (of_int st))"
    by (intro js_times_nonneg) simp_all
  moreover have "(0 :: rat) \<le> to_double (9 / 10)"
    by (rule to_double_nonneg) simp
  ultimately have "0 \<le> js_times (js_times (of_nat n) (js_over (of_int tokenBudget) (of_int st)))
                          (to_double (9 / 10))"
    by (rule js_times_nonneg)
  then show ?thesis by simp
qed

text \<open>
  C6 (amended). For a recorded step: the result is the bulleted key points when there are
  key points, their estimated token count is within the budget, and the budget is less
  than half of \<open>summaryTokens\<close>; else it is the full summary when \<open>summaryTokens\<close> is within
  the budget; else, for a budget that is not negative, it is the first
  \<^verbatim>\<open>Math.floor(summary.length * ratio * 0.9)\<close> characters of the summary, where
  \<^verbatim>\<open>ratio = tokenBudget / summaryTokens\<close> and the quotient and the two products are those
  of double arithmetic, followed by a blank line and the marker \<open>[...truncated]\<close>.
\<close>

theorem getStepOutputForBudget_tiers:
  assumes "memory ctx sid = Some mem"
  shows "(keyPoints mem \<noteq> [] \<and> estimateTokens (keyPointsStr mem) \<le> tokenBudget
            \<and> real_of_int tokenBudget < real_of_int (step_summaryTokens mem) / 2 \<longrightarrow>
          getStepOutputForBudget ctx sid tokenBudget = Inr (keyPointsStr mem))
       \<and> (\<not> (keyPoints mem \<noteq> [] \<and> estimateTokens (keyPointsStr mem) \<le> tokenBudget
                \<and> real_of_int tokenBudget < real_of_int (step_summaryTokens mem) / 2)
            \<and> step_summaryTokens mem \<le> tokenBudget \<longrightarrow>
          getStepOutputForBudget ctx sid tokenBudget = Inr (step_summary mem))
       \<and> (\<not> (keyPoints mem \<noteq> [] \<and> estimateTokens (keyPointsStr mem) \<le> tokenBudget
                \<and> real_of_int tokenBudget < real_of_int (step_summaryTokens mem) / 2)
            \<and> tokenBudget < step_summaryTokens mem \<and> 0 \<le> tokenBudget \<longrightarrow>
          getStepOutputForBudget ctx sid tokenBudget
            = Inr (take (nat \<lfloor>js_times
                                (js_times (of_nat (length (step_summary mem)))
                                   (js_over (of_int tokenBudget)
                                      (of_int (step_summaryTokens mem))))
                                (to_double (9 / 10))\<rfloor>)
                     (step_summary mem)
                   @ ''\<newline>\<newline>[...truncated]''))"
proof -
  have third: "js_slice (step_summary mem) 0
        \<lfloor>js_times (js_times (of_nat (length (step_summary mem)))
                     (js_over (of_int tokenBudget) (of_int (step_summaryTokens mem))))
           (to_double (9 / 10))\<rfloor>
      = take (nat \<lfloor>js_times (js_times (of_nat (length (step_summary mem)))
                               (js_over (of_int tokenBudget) (of_int (step_summaryTokens mem))))
                     (to_double (9 / 10))\<rfloor>)
          (step_summary mem)"
    if "0 \<le> tokenBudget" "tokenBudget < step_summaryTokens mem"
    using truncation_target_range [OF that] by (rule js_slice_0_take)
  show ?thesis
    using third
    by (auto simp: getStepOutputForBudget_def assms Let_def keyPointsStr_tokens
          truncation_marker_def)
qed

text \<open>
  Four runs. On the first sample step (a summary of 40 characters, 10 tokens) a budget of 3
  gives the key points, a budget of 12 the summary, and a budget of 5 the first
  \<open>\<lfloor>40 \<times> 0.5 \<times> 0.9\<rfloor> = 18\<close> characters. On the second (88 characters, 22 tokens) a budget of
  15 gives 53 characters: the quotient \<^verbatim>\<open>15 / 22\<close> is rounded, and the product
  \<^verbatim>\<open>88 * ratio * 0.9\<close> is \<open>53.99999999999999\<close>, where exact arithmetic gives 54.
\<close>

theorem getStepOutputForBudget_tiers_witness:
  "memory sample_context ''step1'' = Some sample_output
   \<and> getStepOutputForBudget sample_context ''step1'' 3 = Inr ''- a\<newline>- b''
   \<and> getStepOutputForBudget sample_context ''step1'' 12 = Inr (step_summary sample_output)
   \<and> getStepOutputForBudget sample_context ''step1'' 5
       = Inr ''012345678901234567\<newline>\<newline>[...truncated]''
   \<and> memory sample_context ''step2'' = Some long_output
   \<and> getStepOutputForBudget sample_context ''step2'' 15
       = Inr (replicate 53 CHR ''x'' @ ''\<newline>\<newline>[...truncated]'')"
proof -
  have mem: "memory sample_context ''step1'' = Some sample_output"
    by (simp add: sample_context_def)
  have mem': "memory sample_context ''step2'' = Some long_output"
    by (simp add: sample_context_def)
  have kp: "keyPointsStr sample_output = ''- a\<newline>- b''"
    by (simp add: keyPointsStr_def sample_output_def)
  have est: "estimateTokens (keyPointsStr sample_output) = 2"
    by (simp add: kp estimateTokens_div)
  have fields: "keyPoints sample_output \<noteq> []" "step_summaryTokens sample_output = 10"
    "keyPoints long_output = []" "step_summaryTokens long_output = 22"
    by (simp_all add: sample_output_def long_output_def)
  have target: "nat \<lfloor>js_times
       (js_times (of_nat (length (step_summary sample_output)))
          (js_over (of_int 5) (of_int (step_summaryTokens sample_output))))
       (to_double (9 / 10))\<rfloor> = 18"
    by code_simp
  have target': "nat \<lfloor>js_times
       (js_times (of_nat (length (step_summary long_output)))
          (js_over (of_int 15) (of_int (step_summaryTokens long_output))))
       (to_double (9 / 10))\<rfloor> = 53"
    by code_simp
  have cut: "take 18 (step_summary sample_output) = ''012345678901234567''"
    by (simp add: sample_output_def)
  have cut': "take 53 (step_summary long_output) = replicate 53 CHR ''x''"
    by (simp add: long_output_def)
  have small: "getStepOutputForBudget sample_context ''step1'' 3 = Inr (keyPointsStr sample_output)"
    using getStepOutputForBudget_tiers [OF mem, of 3] est fields by simp
  have large: "getStepOutputForBudget sample_context ''step1'' 12
      = Inr (step_summary sample_output)"
    using getStepOutputForBudget_tiers [OF mem, of 12] est fields by simp
  have "\<not> (keyPoints sample_output \<noteq> [] \<and> estimateTokens (keyPointsStr sample_output) \<le> 5
            \<and> real_of_int 5 < real_of_int (step_summaryTokens sample_output) / 2)
        \<and> 5 < step_summaryTokens sample_output \<and> (0 :: int) \<le> 5"
    using fields by simp
  with getStepOutputForBudget_tiers [OF mem, of 5]
  have middle: "getStepOutputForBudget sample_context ''step1'' 5
      = Inr (take 18 (step_summary sample_output) @ ''\<newline>\<newline>[...truncated]'')"
    unfolding target by blast
  have "\<not> (keyPoints long_output \<noteq> [] \<and> estimateTokens (keyPointsStr long_output) \<le> 15
            \<and> real_of_int 15 < real_of_int (step_summaryTokens long_output) / 2)
        \<and> 15 < step_summaryTokens long_output \<and> (0 :: int) \<le> 15"
    using fields by simp
  with getStepOutputForBudget_tiers [OF mem', of 15]
  have rounded: "getStepOutputForBudget sample_context ''step2'' 15
      = Inr (take 53 (step_summary long_output) @ ''\<newline>\<newline>[...truncated]'')"
    unfolding target' by blast
  show ?thesis
    using mem mem' small large middle rounded by (simp add: kp cut cut')
qed

text \<open>
  C6, as stated, gives the truncation \<open>tokenBudget \<times> ratio \<times> 0.9\<close> characters. For the first
  sample step (summary of 40 characters, 10 tokens) and a budget of 5 that is 2 characters;
  the code keeps \<open>\<lfloor>40 \<times> 0.5 \<times> 0.9\<rfloor> = 18\<close> characters and appends the marker.
\<close>

theorem getStepOutputForBudget_length_counterexample:
  "getStepOutputForBudget sample_context ''step1'' 5
     = Inr ''012345678901234567\<newline>\<newline>[...truncated]''
   \<and> claimed_truncation_length 5 (step_summaryTokens sample_output) = 2
   \<and> getStepOutputForBudget sample_context ''step1'' 5
       \<noteq> Inr (take (nat (claimed_truncation_length 5 (step_summaryTokens sample_output)))
                (step_summary sample_output))
   \<and> getStepOutputForBudget sample_context ''step1'' 5
       \<noteq> Inr (take (nat (claimed_truncation_length 5 (step_summaryTokens sample_output)))
                (step_summary sample_output) @ ''\<newline>\<newline>[...truncated]'')"
proof -
  have run: "getStepOutputForBudget sample_context ''step1'' 5
      = Inr ''012345678901234567\<newline>\<newline>[...truncated]''"
    by code_simp
  have claimed: "claimed_truncation_length 5 (step_summaryTokens sample_output) = 2"
    by (simp add: claimed_truncation_length_def sample_output_def)
  show ?thesis
    unfolding run claimed by (simp add: sample_output_def)
qed

text \<open>
  A step id that is not recorded but names an inherited property of the memory object
  makes the function throw.
\<close>

lemma getStepOutputForBudget_inherited:
  "getStepOutputForBudget sample_context ''constructor'' 5 = Inl TypeError"
  by code_simp

subsection \<open>Chunking\<close>

text \<open>
  For a target whose configuration is one of the table's entries the loop returns for
  every text: each round removes at least one character, because the break point is
  positive for each of the four chunk sizes of the table.
\<close>

lemma chunkSize_positive: "getTokenConfig agent = Config config \<Longrightarrow> 0 < chunkSize config"
  by (auto simp: getTokenConfig_def ADAPTER_LIMITS_def ollama_limits_def
        split: if_splits option.splits)

lemma length_trim_le: "length (trim s) \<le> length s"
proof -
  have "length (trim s) \<le> length (dropWhile is_js_space s)"
    unfolding trim_def by (metis length_dropWhile_le length_rev)
  also have "\<dots> \<le> length s"
    by (rule length_dropWhile_le)
  finally show ?thesis .
qed

lemma breakPoint_of_positive: "0 < chunkChars \<Longrightarrow> 0 < breakPoint_of chunkChars remaining"
  by (auto simp: breakPoint_of_def Let_def)

lemma chunk_loop_returns:
  assumes "0 < chunkChars"
  shows "\<exists>result. chunk_loop chunkChars remaining chunks = Some result"
proof (induction "length remaining" arbitrary: remaining chunks rule: less_induct)
  case less
  show ?case
  proof (cases "length remaining > 0 \<and> \<not> int (length remaining) \<le> chunkChars")
    case False
    then show ?thesis
      by (subst chunk_loop.simps) auto
  next
    case True
    define rest where
      "rest = trim (js_slice_from remaining (breakPoint_of chunkChars remaining))"
    have "0 < breakPoint_of chunkChars remaining"
      by (rule breakPoint_of_positive [OF assms])
    then have "length (js_slice_from remaining (breakPoint_of chunkChars remaining))
        < length remaining"
      using True by (simp add: js_slice_from_def js_index_def)
    then have "length rest < length remaining"
      using length_trim_le [of "js_slice_from remaining (breakPoint_of chunkChars remaining)"]
      by (simp add: rest_def)
    from less [OF this] obtain result where
      "chunk_loop chunkChars rest
         (chunks @ [trim (js_slice remaining 0 (breakPoint_of chunkChars remaining))])
       = Some result"
      by blast
    with True show ?thesis
      by (subst chunk_loop.simps) (simp add: rest_def)
  qed
qed

lemma splitIntoChunks_returns:
  assumes "getTokenConfig agent = Config config"
  shows "\<exists>chunks. splitIntoChunks text agent = Some chunks"
proof -
  have "0 < chunkSize config * CHARS_PER_TOKEN"
    using chunkSize_positive [OF assms] by (simp add: CHARS_PER_TOKEN_def)
  from chunk_loop_returns [OF this] show ?thesis
    by (simp add: splitIntoChunks_def assms Let_def)
qed

text \<open>
  For a target that names an inherited property the chunk budget is \<^verbatim>\<open>NaN\<close>. The loop
  then pushes an empty piece and trims the text, round after round: it never returns on a
  text that is not blank.
\<close>

lemma dropWhile_keeps_others: "c \<in> set s \<Longrightarrow> \<not> Q c \<Longrightarrow> c \<in> set (dropWhile Q s)"
  by (induction s) auto

lemma trim_keeps_others:
  assumes "c \<in> set s" and "\<not> is_js_space c"
  shows "c \<in> set (trim s)"
proof -
  have "c \<in> set (dropWhile is_js_space s)"
    using assms by (rule dropWhile_keeps_others)
  then have "c \<in> set (rev (dropWhile is_js_space s))"
    by simp
  then have "c \<in> set (dropWhile is_js_space (rev (dropWhile is_js_space s)))"
    using assms(2) by (rule dropWhile_keeps_others)
  then show ?thesis
    by (simp add: trim_def)
qed

lemma chunk_loop_NaN_diverges:
  assumes "chunk_loop_NaN remaining chunks = Some result"
  shows "\<forall>c\<in>set remaining. is_js_space c"
proof (rule chunk_loop_NaN.raw_induct
    [where P = "\<lambda>r c y. \<forall>x\<in>set r. is_js_space x", OF _ assms])
  fix loop r c y
  assume ih: "\<And>r c y. loop r c = Some y \<Longrightarrow> \<forall>x\<in>set r. is_js_space x"
    and body: "(if length r > 0 then loop (trim r) (c @ [trim []]) else Some c) = Some y"
  show "\<forall>x\<in>set r. is_js_space x"
  proof (cases "r = []")
    case True
    then show ?thesis by simp
  next
    case False
    with body have "loop (trim r) (c @ [trim []]) = Some y"
      by simp
    then have "\<forall>x\<in>set (trim r). is_js_space x"
      by (rule ih)
    then show ?thesis
      using trim_keeps_others [of _ r] by blast
  qed
qed

lemma splitIntoChunks_inherited:
  assumes "agent \<in> set inherited_keys" and "c \<in> set text" and "\<not> is_js_space c"
  shows "splitIntoChunks text agent = None"
proof (cases "splitIntoChunks text agent")
  case None
  then show ?thesis .
next
  case (Some result)
  then have "chunk_loop_NaN text [] = Some result"
    by (simp add: splitIntoChunks_def getTokenConfig_inherited [OF assms(1)])
  from chunk_loop_NaN_diverges [OF this] assms(2,3) show ?thesis
    by blast
qed

lemma splitIntoChunks_inherited_run:
  "splitIntoChunks ''abc'' ''constructor'' = None"
  by (rule splitIntoChunks_inherited [of _ "CHR ''a''"])
     (simp_all add: inherited_keys_def is_js_space_def)

text \<open>
  No piece is longer than the chunk budget in characters plus one: a piece that ends at a
  paragraph or sentence break ends in white space, which \<open>trim\<close> removes.
\<close>

lemma lastIndexOf_upto_cases:
  "lastIndexOf_upto s pat n = - 1
   \<or> (0 \<le> lastIndexOf_upto s pat n \<and> lastIndexOf_upto s pat n \<le> int n
       \<and> matches_at s pat (nat (lastIndexOf_upto s pat n)))"
proof (induction n)
  case 0
  then show ?case by simp
next
  case (Suc n)
  have "nat (1 + int n) = Suc n" by simp
  with Suc show ?case by auto
qed

lemma length_trim_snoc:
  assumes "is_js_space c"
  shows "length (trim (y @ [c])) \<le> length y"
proof (cases "dropWhile is_js_space y = []")
  case True
  then have "dropWhile is_js_space (y @ [c]) = []"
    using assms by (simp add: dropWhile_append)
  then show ?thesis by (simp add: trim_def)
next
  case False
  then have "dropWhile is_js_space (y @ [c]) = dropWhile is_js_space y @ [c]"
    by (auto simp: dropWhile_append)
  then have "trim (y @ [c]) = rev (dropWhile is_js_space (rev (dropWhile is_js_space y)))"
    using assms by (simp add: trim_def)
  then show ?thesis
    using length_trim_le [of y] by (simp add: trim_def)
qed

lemma break_after_match:
  assumes "0 < chunkChars" and "c2 \<in> {CHR 0x0A, CHR '' ''}"
    and "k = lastIndexOf_from remaining [c1, c2] chunkChars" and "0 \<le> k"
  shows "int (length (trim (js_slice remaining 0 (k + 2)))) \<le> chunkChars + 1"
proof -
  define start where "start = nat (min (max chunkChars 0) (int (length remaining)))"
  have k: "k = lastIndexOf_upto remaining [c1, c2] start"
    using assms(3) by (simp add: lastIndexOf_from_def start_def)
  from lastIndexOf_upto_cases [of remaining "[c1, c2]" start] k assms(4)
  have le: "k \<le> int start" and hit: "matches_at remaining [c1, c2] (nat k)"
    by auto
  from hit obtain zs where zs: "drop (nat k) remaining = [c1, c2] @ zs"
    by (auto simp: matches_at_def prefix_def)
  then have "take 2 (drop (nat k) remaining) = [c1, c2]" by simp
  moreover have "take (nat k + 2) remaining
      = take (nat k) remaining @ take 2 (drop (nat k) remaining)"
    by (rule take_add)
  moreover have "nat (k + 2) = nat k + 2" using assms(4) by simp
  ultimately have "take (nat (k + 2)) remaining = (take (nat k) remaining @ [c1]) @ [c2]"
    by simp
  moreover have "js_slice remaining 0 (k + 2) = take (nat (k + 2)) remaining"
    using assms(4) by (simp add: js_slice_0_take)
  moreover have "is_js_space c2"
    using assms(2) by (auto simp: is_js_space_def)
  ultimately have "length (trim (js_slice remaining 0 (k + 2)))
      \<le> length (take (nat k) remaining @ [c1])"
    by (simp only: length_trim_snoc)
  also have "\<dots> \<le> nat k + 1" by simp
  finally have "int (length (trim (js_slice remaining 0 (k + 2)))) \<le> k + 1"
    using assms(4) by linarith
  moreover have "k \<le> chunkChars"
    using le assms(1) by (simp add: start_def)
  ultimately show ?thesis by linarith
qed

lemma piece_bound:
  assumes "0 < chunkChars"
  shows "int (length (trim (js_slice remaining 0 (breakPoint_of chunkChars remaining))))
         \<le> chunkChars + 1"
proof -
  define pb where "pb = lastIndexOf_from remaining ''\<newline>\<newline>'' chunkChars"
  define sb where "sb = lastIndexOf_from remaining ''. '' chunkChars"
  consider (para) "real_of_int pb > real_of_int chunkChars * 0.5"
    | (sent) "\<not> real_of_int pb > real_of_int chunkChars * 0.5"
        "real_of_int sb > real_of_int chunkChars * 0.5"
    | (hard) "\<not> real_of_int pb > real_of_int chunkChars * 0.5"
        "\<not> real_of_int sb > real_of_int chunkChars * 0.5"
    by blast
  then show ?thesis
  proof cases
    case para
    then have "0 \<le> pb" using assms by simp
    from break_after_match [OF assms _ pb_def this] para show ?thesis
      by (simp add: breakPoint_of_def pb_def [symmetric])
  next
    case sent
    then have "0 \<le> sb" using assms by simp
    from break_after_match [OF assms _ sb_def this] sent show ?thesis
      by (simp add: breakPoint_of_def pb_def [symmetric] sb_def [symmetric])
  next
    case hard
    have "int (length (js_slice remaining 0 chunkChars)) \<le> chunkChars"
      using assms by (simp add: length_js_slice_0)
    with hard length_trim_le [of "js_slice remaining 0 chunkChars"] show ?thesis
      by (simp add: breakPoint_of_def pb_def [symmetric] sb_def [symmetric])
  qed
qed

lemma chunk_loop_bound:
  assumes "0 < chunkChars"
  shows "chunk_loop chunkChars remaining chunks = Some result \<Longrightarrow>
         \<forall>c\<in>set chunks. int (length c) \<le> chunkChars + 1 \<Longrightarrow>
         \<forall>c\<in>set result. int (length c) \<le> chunkChars + 1"
proof (induction "length remaining" arbitrary: remaining chunks rule: less_induct)
  case less
  show ?case
  proof (cases "length remaining > 0 \<and> \<not> int (length remaining) \<le> chunkChars")
    case False
    with less.prems show ?thesis
      by (subst (asm) chunk_loop.simps) (auto split: if_splits)
  next
    case True
    define rest where
      "rest = trim (js_slice_from remaining (breakPoint_of chunkChars remaining))"
    define piece where
      "piece = trim (js_slice remaining 0 (breakPoint_of chunkChars remaining))"
    have "0 < breakPoint_of chunkChars remaining"
      by (rule breakPoint_of_positive [OF assms])
    then have "length (js_slice_from remaining (breakPoint_of chunkChars remaining))
        < length remaining"
      using True by (simp add: js_slice_from_def js_index_def)
    then have shorter: "length rest < length remaining"
      using length_trim_le [of "js_slice_from remaining (breakPoint_of chunkChars remaining)"]
      by (simp add: rest_def)
    have step: "chunk_loop chunkChars rest (chunks @ [piece]) = Some result"
      using less.prems(1) True
      by (subst (asm) chunk_loop.simps) (simp add: rest_def piece_def)
    have "\<forall>c\<in>set (chunks @ [piece]). int (length c) \<le> chunkChars + 1"
      using less.prems(2) piece_bound [OF assms, of remaining] by (simp add: piece_def)
    from less.hyps [OF shorter step this] show ?thesis .
  qed
qed

lemma splitIntoChunks_bound:
  assumes "getTokenConfig agent = Config config"
    and "splitIntoChunks text agent = Some chunks" and "c \<in> set chunks"
  shows "estimateTokens c \<le> chunkSize config + 1"
proof -
  define chunkChars where "chunkChars = chunkSize config * CHARS_PER_TOKEN"
  have pos: "0 < chunkChars"
    using chunkSize_positive [OF assms(1)] by (simp add: chunkChars_def CHARS_PER_TOKEN_def)
  have "int (length c) \<le> chunkChars + 1"
  proof (cases "int (length text) \<le> chunkChars")
    case True
    with assms show ?thesis
      by (auto simp: splitIntoChunks_def Let_def chunkChars_def [symmetric])
  next
    case False
    with assms(1,2) have "chunk_loop chunkChars text [] = Some chunks"
      by (simp add: splitIntoChunks_def Let_def chunkChars_def [symmetric])
    from chunk_loop_bound [OF pos this] assms(3) show ?thesis by simp
  qed
  then show ?thesis
    by (simp add: estimateTokens_div chunkChars_def CHARS_PER_TOKEN_def)
qed

text \<open>A text on which a piece exceeds the budget.\<close>

lemma matches_at_set: "matches_at s (c # cs) k \<Longrightarrow> c \<in> set s"
  unfolding matches_at_def prefix_def
  by (metis in_set_dropD list.set_intros(1) append_Cons)

lemma lastIndexOf_upto_none:
  "(\<And>k. \<not> matches_at s pat k) \<Longrightarrow> lastIndexOf_upto s pat n = - 1"
  by (induction n) simp_all

lemma lastIndexOf_upto_hit:
  "matches_at s pat n \<Longrightarrow> lastIndexOf_upto s pat n = int n"
  by (cases n) simp_all

lemma dropWhile_replicate_append:
  "\<not> P a \<Longrightarrow> 0 < n \<Longrightarrow> dropWhile P (replicate n a @ xs) = replicate n a @ xs"
  by (cases n) simp_all

lemma getTokenConfig_ollama: "getTokenConfig ''ollama'' = Config ollama_limits"
  by (simp add: getTokenConfig_def ADAPTER_LIMITS_def)

lemma chunkChars_ollama: "chunkSize ollama_limits * CHARS_PER_TOKEN = 8000"
  by (simp add: ollama_limits_def CHARS_PER_TOKEN_def)

lemma breakPoint_of_overrun:
  "breakPoint_of 8000 (replicate 8000 CHR ''a'' @ ''. b'') = 8002"
proof -
  have "lastIndexOf_from (replicate 8000 CHR ''a'' @ ''. b'') ''\<newline>\<newline>'' 8000 = - 1"
    unfolding lastIndexOf_from_def
    by (rule lastIndexOf_upto_none) (auto dest!: matches_at_set)
  moreover have "lastIndexOf_from (replicate 8000 CHR ''a'' @ ''. b'') ''. '' 8000 = 8000"
    unfolding lastIndexOf_from_def
    by (simp add: lastIndexOf_upto_hit matches_at_def)
  ultimately show ?thesis
    by (simp add: breakPoint_of_def)
qed

lemma first_chunk_overrun:
  "trim (js_slice (replicate 8000 CHR ''a'' @ ''. b'') 0 8002) = replicate 8000 CHR ''a'' @ ''.''"
  by (simp add: js_slice_def js_index_def trim_def is_js_space_def dropWhile_replicate_append)

lemma rest_overrun:
  "trim (js_slice_from (replicate 8000 CHR ''a'' @ ''. b'') 8002) = ''b''"
  by (simp add: js_slice_from_def js_index_def trim_def is_js_space_def)

text \<open>
  C7. The claim bounds every piece by the target's chunk budget. For the target \<open>ollama\<close>
  (chunk budget 2000 tokens, 8000 characters) and a text of 8000 letters followed by
  \<open>''. b''\<close>, \<^verbatim>\<open>remaining.lastIndexOf('. ', chunkChars)\<close> finds the sentence break that
  starts at index 8000 itself, the break point becomes 8002, and after trimming the first
  piece keeps 8001 characters, that is 2001 tokens. The loop returns, as it does for every
  text and every target with a configuration of the table, and one token above the budget
  is the most that a piece can have.
\<close>

theorem splitIntoChunks_overrun:
  "splitIntoChunks (replicate 8000 CHR ''a'' @ ''. b'') ''ollama''
     = Some [replicate 8000 CHR ''a'' @ ''.'', ''b'']
   \<and> estimateTokens (replicate 8000 CHR ''a'' @ ''.'') = 2001
   \<and> getTokenConfig ''ollama'' = Config ollama_limits
   \<and> chunkSize ollama_limits = 2000
   \<and> chunkSize ollama_limits < estimateTokens (replicate 8000 CHR ''a'' @ ''.'')"
proof -
  have "chunk_loop 8000 (replicate 8000 CHR ''a'' @ ''. b'') []
      = chunk_loop 8000 ''b'' [replicate 8000 CHR ''a'' @ ''.'']"
    by (subst chunk_loop.simps)
       (simp add: breakPoint_of_overrun first_chunk_overrun rest_overrun)
  also have "\<dots> = Some [replicate 8000 CHR ''a'' @ ''.'', ''b'']"
    by (subst chunk_loop.simps) simp
  finally have "splitIntoChunks (replicate 8000 CHR ''a'' @ ''. b'') ''ollama''
      = Some [replicate 8000 CHR ''a'' @ ''.'', ''b'']"
    by (simp add: splitIntoChunks_def getTokenConfig_ollama chunkChars_ollama Let_def)
  moreover have "estimateTokens (replicate 8000 CHR ''a'' @ ''.'') = 2001"
    by (simp add: estimateTokens_div)
  moreover have "chunkSize ollama_limits = 2000"
    by (simp add: ollama_limits_def)
  ultimately show ?thesis by (simp add: getTokenConfig_ollama)
qed

end
